theory Spec2Isabelle
  imports Main
begin

section \<open>Go standard library functions used by the handlers\<close>

text \<open>
  The handlers of \<^verbatim>\<open>server/handles/storage.go\<close> decide every path-scope question with
  \<^verbatim>\<open>strings.HasPrefix\<close>, \<^verbatim>\<open>strings.TrimPrefix\<close> and \<^verbatim>\<open>path.Join\<close>. Go strings are byte
  sequences, modelled as \<open>string\<close> (a list of 8-bit characters).

  \<^verbatim>\<open>HasPrefix(s, prefix)\<close> is \<^verbatim>\<open>len(s) >= len(prefix) && s[:len(prefix)] == prefix\<close>;
  \<^verbatim>\<open>TrimPrefix(s, prefix)\<close> returns \<^verbatim>\<open>s[len(prefix):]\<close> when that holds and \<^verbatim>\<open>s\<close> otherwise.
\<close>

definition strings_HasPrefix :: "string \<Rightarrow> string \<Rightarrow> bool" where
  "strings_HasPrefix s pre = (length s \<ge> length pre \<and> take (length pre) s = pre)"

definition strings_TrimPrefix :: "string \<Rightarrow> string \<Rightarrow> string" where
  "strings_TrimPrefix s pre = (if strings_HasPrefix s pre then drop (length pre) s else s)"

text \<open>
  \<^verbatim>\<open>path.Clean\<close>. The library keeps the output in a buffer with a write index \<^verbatim>\<open>w\<close>; here
  \<open>out\<close> is the written part of that buffer and \<^verbatim>\<open>out.w\<close> is \<open>length out\<close>. The input that
  is still to be read, \<^verbatim>\<open>path[r:]\<close>, is \<open>rest\<close>. \<open>backtrack\<close> is the inner loop of the
  \<^verbatim>\<open>..\<close> case: \<^verbatim>\<open>out.w--; for out.w > dotdot && out.index(out.w) != '/' { out.w-- }\<close>.
\<close>

function backtrack :: "nat \<Rightarrow> string \<Rightarrow> string" where
  "backtrack dotdot out =
     (let out' = butlast out in
      if length out' > dotdot \<and> last out \<noteq> CHR ''/'' then backtrack dotdot out' else out')"
  by pat_completeness auto
termination
  by (relation "measure (\<lambda>(d, out). length out)") auto

function Clean_loop :: "bool \<Rightarrow> string \<Rightarrow> string \<Rightarrow> nat \<Rightarrow> string" where
  "Clean_loop rooted rest out dotdot =
     (case rest of
        [] \<Rightarrow> out
      | c # cs \<Rightarrow>
          if c = CHR ''/'' then Clean_loop rooted cs out dotdot
          else if c = CHR ''.'' \<and> (cs = [] \<or> hd cs = CHR ''/'') then
            Clean_loop rooted cs out dotdot
          else if c = CHR ''.'' \<and> hd cs = CHR ''.'' \<and> (tl cs = [] \<or> hd (tl cs) = CHR ''/'') then
            (if length out > dotdot then Clean_loop rooted (tl cs) (backtrack dotdot out) dotdot
             else if \<not> rooted then
               (let out1 = (if length out > 0 then out @ ''/'' else out);
                    out2 = out1 @ ''..''
                in Clean_loop rooted (tl cs) out2 (length out2))
             else Clean_loop rooted (tl cs) out dotdot)
          else
            (let out1 = (if (rooted \<and> length out \<noteq> 1) \<or> (\<not> rooted \<and> length out \<noteq> 0)
                         then out @ ''/'' else out)
             in Clean_loop rooted (dropWhile (\<lambda>x. x \<noteq> CHR ''/'') cs)
                  (out1 @ c # takeWhile (\<lambda>x. x \<noteq> CHR ''/'') cs) dotdot))"
  by pat_completeness auto
termination
  by (relation "measure (\<lambda>(rooted, rest, out, dotdot). length rest)")
     (auto simp: less_Suc_eq_le length_dropWhile_le intro: le_trans[OF _ diff_le_self])

declare Clean_loop.simps [simp del]

definition path_Clean :: "string \<Rightarrow> string" where
  "path_Clean path =
     (if path = [] then ''.''
      else
        let rooted = (hd path = CHR ''/'');
            out = (if rooted then Clean_loop rooted (tl path) ''/'' 1
                   else Clean_loop rooted path [] 0)
        in if length out = 0 then ''.'' else out)"

text \<open>
  \<^verbatim>\<open>path.Join\<close>: the elements are joined with slashes, empty elements before the first
  non-empty one being skipped, and the result is cleaned; when every element is empty
  the result is the empty string.
\<close>

definition Join_step :: "string \<Rightarrow> string \<Rightarrow> string" where
  "Join_step buf e =
     (if length buf > 0 \<or> e \<noteq> [] then (if length buf > 0 then buf @ ''/'' else buf) @ e
      else buf)"

definition path_Join :: "string list \<Rightarrow> string" where
  "path_Join elem =
     (if sum_list (map length elem) = 0 then []
      else path_Clean (foldl Join_step [] elem))"

section \<open>Data model\<close>

text \<open>
  Modelled from the spec: the declarations of \<^verbatim>\<open>model.Storage\<close>, \<^verbatim>\<open>model.User\<close> and
  \<^verbatim>\<open>model.StorageDetails\<close> live in \<^verbatim>\<open>internal/model\<close>, outside the handler file. The
  records carry the fields the spec's data model lists; \<open>Addition\<close> stands for the opaque
  backend configuration, and \<open>IsAdmin\<close> for the result of the method \<^verbatim>\<open>user.IsAdmin()\<close>.
  Identifiers are Go \<^verbatim>\<open>uint\<close> values (64 bits), kept as natural numbers.
\<close>

record Storage =
  ID :: nat
  MountPath :: string
  Driver :: string
  Disabled :: bool
  Addition :: string

record User =
  Username :: string
  IsAdmin :: bool
  BasePath :: string

record StorageDetails =
  TotalSpace :: nat
  FreeSpace :: nat

text \<open>\<^verbatim>\<open>type StorageResp struct { model.Storage; MountDetails *model.StorageDetails }\<close>\<close>

record StorageResp =
  Storage :: Storage
  MountDetails :: "StorageDetails option"

text \<open>\<^verbatim>\<open>type detailWithIndex struct { idx int; val *model.StorageDetails }\<close>\<close>

record detailWithIndex =
  idx :: nat
  val :: "StorageDetails option"

text \<open>
  Errors are values. \<open>NotImplement\<close> and \<open>StorageNotInit\<close> are the two sentinels of
  \<^verbatim>\<open>internal/errs\<close> the handler file names; \<open>WithMessage\<close> is a wrapped error, which
  \<^verbatim>\<open>errors.Is\<close> unwraps.
\<close>

datatype err = NotImplement | StorageNotInit | ErrMsg string | WithMessage string err

fun errors_Is :: "err \<Rightarrow> err \<Rightarrow> bool" where
  "errors_Is (WithMessage m e) target = (WithMessage m e = target \<or> errors_Is e target)"
| "errors_Is e target = (e = target)"

text \<open>
  A live driver instance, as far as the handlers look at it: the storage it was built
  from (\<^verbatim>\<open>dri.GetStorage()\<close>) and whether the type assertion
  \<^verbatim>\<open>d.(driver.WithDetails)\<close> succeeds.
\<close>

record Driver_inst =
  driver_GetStorage :: Storage
  WithDetails :: bool

text \<open>\<^verbatim>\<open>model.PageReq\<close>, and \<^verbatim>\<open>common.PageResp\<close> inside the data a response carries.\<close>

record PageReq =
  Page :: int
  PerPage :: int

datatype resp_data =
    NoData
  | IdData nat
  | StorageData Storage
  | PageResp "StorageResp list" int

text \<open>
  What a handler answers: which of the helpers of \<^verbatim>\<open>server/common\<close> it called, with the
  HTTP status it passed. \<open>Panicked\<close> is a run-time panic of the handler (the unchecked
  type assertion on a request without a user).
\<close>

datatype response =
    ErrorResp err nat
  | ErrorStrResp string nat
  | ErrorWithDataResp err nat resp_data
  | SuccessResp resp_data
  | Panicked

section \<open>The collaborators: record store, op layer, settings, signal\<close>

text \<open>
  The store (\<^verbatim>\<open>internal/db\<close>), the op layer (\<^verbatim>\<open>internal/op\<close>), the settings and the
  driver instances are outside the handler file. They are parameters: a record of
  functions over an arbitrary store state \<open>'w\<close>, each returning its Go results and the
  next state. A Go result \<^verbatim>\<open>(x, err)\<close> whose \<^verbatim>\<open>x\<close> is read only when \<^verbatim>\<open>err == nil\<close> is a
  sum; \<^verbatim>\<open>op.CreateStorage\<close> returns the id with the error, and the handler reads both.
\<close>

record 'w env =
  PageReq_Validate :: "PageReq \<Rightarrow> PageReq"
  db_GetStorages :: "int \<Rightarrow> int \<Rightarrow> 'w \<Rightarrow> (err + Storage list \<times> int) \<times> 'w"
  db_GetStorageById :: "nat \<Rightarrow> 'w \<Rightarrow> (err + Storage) \<times> 'w"
  db_GetEnabledStorages :: "'w \<Rightarrow> (err + Storage list) \<times> 'w"
  op_CreateStorage :: "Storage \<Rightarrow> 'w \<Rightarrow> (nat \<times> err option) \<times> 'w"
  op_UpdateStorage :: "Storage \<Rightarrow> 'w \<Rightarrow> err option \<times> 'w"
  op_DeleteStorageById :: "nat \<Rightarrow> 'w \<Rightarrow> err option \<times> 'w"
  op_DisableStorage :: "nat \<Rightarrow> 'w \<Rightarrow> err option \<times> 'w"
  op_EnableStorage :: "nat \<Rightarrow> 'w \<Rightarrow> err option \<times> 'w"
  op_GetStorageByMountPath :: "string \<Rightarrow> 'w \<Rightarrow> (err + Driver_inst) \<times> 'w"
  op_GetStorageDetails :: "Driver_inst \<Rightarrow> StorageDetails option \<times> err option"
  op_LoadStorage :: "Storage \<Rightarrow> 'w \<Rightarrow> err option \<times> 'w"
  Drop :: "Driver_inst \<Rightarrow> 'w \<Rightarrow> err option \<times> 'w"
  HideStorageDetailsInManagePage :: "'w \<Rightarrow> bool"

text \<open>
  Every call that reaches a collaborator is recorded, in order, so that "the store is
  never called" is a statement about the record of calls.
\<close>

datatype call =
    DbGetStorages int int
  | DbGetStorageById nat
  | DbGetEnabledStorages
  | OpCreateStorage Storage
  | OpUpdateStorage Storage
  | OpDeleteStorageById nat
  | OpDisableStorage nat
  | OpEnableStorage nat
  | OpGetStorageByMountPath string
  | OpLoadStorage Storage
  | DriverDrop Driver_inst
  | ResetStoragesLoadSignal
  | SendStoragesLoadedSignal
  | LogErrorf string
  | LogInfof string

text \<open>
  Modelled from the spec: the process-wide signal of \<^verbatim>\<open>internal/conf\<close>, whose
  \<^verbatim>\<open>ResetStoragesLoadSignal\<close> and \<^verbatim>\<open>SendStoragesLoadedSignal\<close> are not in the handler file.
  The spec gives it the states \<open>NotLoaded\<close>, \<open>Loading\<close> and \<open>Loaded\<close>: a reset enters
  \<open>Loading\<close>, and the loaded signal enters \<open>Loaded\<close>.
\<close>

datatype load_signal = NotLoaded | Loading | Loaded

record 'w world =
  store :: 'w
  signal :: load_signal
  calls :: "call list"

definition record_call :: "call \<Rightarrow> 'w world \<Rightarrow> 'w world" where
  "record_call c w = w\<lparr>calls := calls w @ [c]\<rparr>"

definition invoke :: "call \<Rightarrow> ('w \<Rightarrow> 'r \<times> 'w) \<Rightarrow> 'w world \<Rightarrow> 'r \<times> 'w world" where
  "invoke c f w = (let (r, s') = f (store w) in (r, (record_call c w)\<lparr>store := s'\<rparr>))"

definition conf_ResetStoragesLoadSignal :: "'w world \<Rightarrow> 'w world" where
  "conf_ResetStoragesLoadSignal w = (record_call ResetStoragesLoadSignal w)\<lparr>signal := Loading\<rparr>"

definition conf_SendStoragesLoadedSignal :: "'w world \<Rightarrow> 'w world" where
  "conf_SendStoragesLoadedSignal w = (record_call SendStoragesLoadedSignal w)\<lparr>signal := Loaded\<rparr>"

text \<open>
  The request context: the user stored under \<^verbatim>\<open>conf.UserKey\<close>, absent when the value
  is nil.
\<close>

type_synonym gin_Context = "User option"

text \<open>Go's conversion \<^verbatim>\<open>uint(id)\<close> of a 64-bit \<^verbatim>\<open>int\<close>: negative values wrap.\<close>

definition uint :: "int \<Rightarrow> nat" where
  "uint i = nat (i mod 2 ^ 64)"

section \<open>Path scope\<close>

text \<open>
  The spec's names for two pieces of inline code. \<open>ToRelative\<close> is the guarded rewrite of
  lines 44-48 and 280-284 (without the test on the user); \<open>ToAbsolute\<close> is the rewrite of
  lines 137-141 and 178-181.
\<close>

definition ToRelative :: "string \<Rightarrow> string \<Rightarrow> string" where
  "ToRelative p root =
     (if strings_HasPrefix p root then
        (let p' = strings_TrimPrefix p root in if p' = [] then ''/'' else p')
      else p)"

definition ToAbsolute :: "string \<Rightarrow> string \<Rightarrow> string" where
  "ToAbsolute p root = (if \<not> strings_HasPrefix p root then path_Join [root, p] else p)"

section \<open>The handlers\<close>

text \<open>
  \<^verbatim>\<open>filterStorages\<close>. The \<^verbatim>\<open>log.Infof\<close> line of its loop, like the other debug and info
  lines of the CRUD handlers, has no effect on what is returned and is left out.
\<close>

definition filterStorages :: "gin_Context \<Rightarrow> Storage list \<Rightarrow> Storage list" where
  "filterStorages c storages =
     (case c of
        None \<Rightarrow> []
      | Some u \<Rightarrow>
          if IsAdmin u then storages
          else filter (\<lambda>s. strings_HasPrefix (MountPath s) (BasePath u)) storages)"

text \<open>
  \<^verbatim>\<open>CreateStorage\<close>. \<open>bind\<close> is the result of \<^verbatim>\<open>c.ShouldBind(&req)\<close>.
\<close>

definition CreateStorage ::
  "'w env \<Rightarrow> gin_Context \<Rightarrow> err + Storage \<Rightarrow> 'w world \<Rightarrow> response \<times> 'w world" where
  "CreateStorage E c bind w =
     (case bind of
        Inl e \<Rightarrow> (ErrorResp e 400, w)
      | Inr req \<Rightarrow>
          (case c of
             None \<Rightarrow> (Panicked, w)
           | Some user \<Rightarrow>
               let req1 = (if \<not> IsAdmin user then req\<lparr>MountPath := ToAbsolute (MountPath req) (BasePath user)\<rparr>
                           else req)
               in if \<not> IsAdmin user \<and> \<not> strings_HasPrefix (MountPath req1) (BasePath user) then
                    (ErrorStrResp (''permission denied: you can only mount under '' @ BasePath user) 403, w)
                  else
                    let ((new_id, e), w1) = invoke (OpCreateStorage req1) (op_CreateStorage E req1) w
                    in (case e of
                          Some er \<Rightarrow>
                            (ErrorWithDataResp er 500 (IdData new_id),
                             record_call (LogErrorf ''Debug CreateStorage Failed: %v'') w1)
                        | None \<Rightarrow> (SuccessResp (IdData new_id), w1))))"

text \<open>\<^verbatim>\<open>UpdateStorage\<close>.\<close>

definition UpdateStorage ::
  "'w env \<Rightarrow> gin_Context \<Rightarrow> err + Storage \<Rightarrow> 'w world \<Rightarrow> response \<times> 'w world" where
  "UpdateStorage E c bind w =
     (case bind of
        Inl e \<Rightarrow> (ErrorResp e 400, w)
      | Inr req \<Rightarrow>
          (case c of
             None \<Rightarrow> (Panicked, w)
           | Some user \<Rightarrow>
               let delegate = (\<lambda>rq w'.
                     let (e, w2) = invoke (OpUpdateStorage rq) (op_UpdateStorage E rq) w'
                     in (case e of Some er \<Rightarrow> (ErrorResp er 500, w2)
                                 | None \<Rightarrow> (SuccessResp NoData, w2)))
               in if \<not> IsAdmin user then
                    (let (r, w1) = invoke (DbGetStorageById (ID req)) (db_GetStorageById E (ID req)) w
                     in case r of
                          Inl e \<Rightarrow> (ErrorResp e 500, w1)
                        | Inr oldS \<Rightarrow>
                            if \<not> strings_HasPrefix (MountPath oldS) (BasePath user) then
                              (ErrorStrResp ''permission denied'' 403, w1)
                            else
                              let req1 = req\<lparr>MountPath := ToAbsolute (MountPath req) (BasePath user)\<rparr>
                              in if \<not> strings_HasPrefix (MountPath req1) (BasePath user) then
                                   (ErrorStrResp (''permission denied: you can only mount under ''
                                                  @ BasePath user) 403, w1)
                                 else delegate req1 w1)
                  else delegate req w))"

text \<open>
  \<^verbatim>\<open>DeleteStorage\<close>, \<^verbatim>\<open>DisableStorage\<close> and \<^verbatim>\<open>EnableStorage\<close> differ only in the op-layer
  function they end with. \<open>parsed\<close> is the result of \<^verbatim>\<open>strconv.Atoi(c.Query("id"))\<close>,
  and \<open>n\<close> the integer the source calls \<^verbatim>\<open>id\<close>.
  \<open>owner_gate\<close> is the block the three share word for word (lines 201-208, 223-230,
  245-252): it answers when the request stops there.
\<close>

definition owner_gate ::
  "'w env \<Rightarrow> gin_Context \<Rightarrow> int \<Rightarrow> 'w world \<Rightarrow> response option \<times> 'w world" where
  "owner_gate E c n w =
     (case c of
        None \<Rightarrow> (Some Panicked, w)
      | Some user \<Rightarrow>
          if \<not> IsAdmin user then
            (let (r, w1) = invoke (DbGetStorageById (uint n)) (db_GetStorageById E (uint n)) w
             in if (case r of Inl e \<Rightarrow> True
                            | Inr oldS \<Rightarrow> \<not> strings_HasPrefix (MountPath oldS) (BasePath user))
                then (Some (ErrorStrResp ''permission denied or storage not found'' 403), w1)
                else (None, w1))
          else (None, w))"

definition finish :: "err option \<times> 'w world \<Rightarrow> response \<times> 'w world" where
  "finish r = (case r of (Some e, w) \<Rightarrow> (ErrorResp e 500, w) | (None, w) \<Rightarrow> (SuccessResp NoData, w))"

definition DeleteStorage ::
  "'w env \<Rightarrow> gin_Context \<Rightarrow> err + int \<Rightarrow> 'w world \<Rightarrow> response \<times> 'w world" where
  "DeleteStorage E c parsed w =
     (case parsed of
        Inl e \<Rightarrow> (ErrorResp e 400, w)
      | Inr n \<Rightarrow>
          (case owner_gate E c n w of
             (Some resp, w1) \<Rightarrow> (resp, w1)
           | (None, w1) \<Rightarrow>
               finish (invoke (OpDeleteStorageById (uint n)) (op_DeleteStorageById E (uint n)) w1)))"

definition DisableStorage ::
  "'w env \<Rightarrow> gin_Context \<Rightarrow> err + int \<Rightarrow> 'w world \<Rightarrow> response \<times> 'w world" where
  "DisableStorage E c parsed w =
     (case parsed of
        Inl e \<Rightarrow> (ErrorResp e 400, w)
      | Inr n \<Rightarrow>
          (case owner_gate E c n w of
             (Some resp, w1) \<Rightarrow> (resp, w1)
           | (None, w1) \<Rightarrow>
               finish (invoke (OpDisableStorage (uint n)) (op_DisableStorage E (uint n)) w1)))"

definition EnableStorage ::
  "'w env \<Rightarrow> gin_Context \<Rightarrow> err + int \<Rightarrow> 'w world \<Rightarrow> response \<times> 'w world" where
  "EnableStorage E c parsed w =
     (case parsed of
        Inl e \<Rightarrow> (ErrorResp e 400, w)
      | Inr n \<Rightarrow>
          (case owner_gate E c n w of
             (Some resp, w1) \<Rightarrow> (resp, w1)
           | (None, w1) \<Rightarrow>
               finish (invoke (OpEnableStorage (uint n)) (op_EnableStorage E (uint n)) w1)))"

text \<open>\<^verbatim>\<open>GetStorage\<close>: the record is loaded first, the scope is checked after.\<close>

definition GetStorage ::
  "'w env \<Rightarrow> gin_Context \<Rightarrow> err + int \<Rightarrow> 'w world \<Rightarrow> response \<times> 'w world" where
  "GetStorage E c parsed w =
     (case parsed of
        Inl e \<Rightarrow> (ErrorResp e 400, w)
      | Inr n \<Rightarrow>
          (case c of
             None \<Rightarrow> (Panicked, w)
           | Some user \<Rightarrow>
               let (r, w1) = invoke (DbGetStorageById (uint n)) (db_GetStorageById E (uint n)) w
               in (case r of
                     Inl e \<Rightarrow> (ErrorResp e 500, w1)
                   | Inr storage \<Rightarrow>
                       if \<not> IsAdmin user \<and> \<not> strings_HasPrefix (MountPath storage) (BasePath user) then
                         (ErrorStrResp ''permission denied'' 403, w1)
                       else
                         (let storage1 =
                                (if \<not> IsAdmin user \<and> strings_HasPrefix (MountPath storage) (BasePath user)
                                 then storage\<lparr>MountPath := ToRelative (MountPath storage) (BasePath user)\<rparr>
                                 else storage)
                          in (SuccessResp (StorageData storage1), w1)))))"

text \<open>
  The view of a record for the caller (lines 43-49 of \<^verbatim>\<open>makeStorageResp\<close>): for a non-admin
  user whose \<open>BasePath\<close> is a prefix of the \<open>MountPath\<close>, the prefix is stripped from the
  loop's copy \<^verbatim>\<open>s\<close> of the record.
\<close>

definition tenant_view :: "gin_Context \<Rightarrow> Storage \<Rightarrow> Storage" where
  "tenant_view c s =
     (case c of
        None \<Rightarrow> s
      | Some user \<Rightarrow>
          if \<not> IsAdmin user \<and> strings_HasPrefix (MountPath s) (BasePath user)
          then s\<lparr>MountPath := ToRelative (MountPath s) (BasePath user)\<rparr>
          else s)"

text \<open>
  \<^verbatim>\<open>makeStorageResp\<close>, first loop (lines 42-76): slot \<open>i\<close> of \<^verbatim>\<open>ret\<close> is filled with the
  view of the record, and a worker is started for it when details are not hidden, the
  (rewritten) path resolves to a driver and the driver has the details capability.
  \<open>acc\<close> is \<^verbatim>\<open>ret[0:i]\<close>, \<open>workers\<close> are the \<^verbatim>\<open>(dri, idx)\<close> arguments of the goroutines
  started so far, so \<^verbatim>\<open>workerCount\<close> is their number.
\<close>

fun dispatch ::
  "'w env \<Rightarrow> gin_Context \<Rightarrow> nat \<Rightarrow> Storage list \<Rightarrow> StorageResp list \<Rightarrow> (Driver_inst \<times> nat) list
     \<Rightarrow> 'w world \<Rightarrow> (StorageResp list \<times> (Driver_inst \<times> nat) list) \<times> 'w world" where
  "dispatch E c i [] acc workers w = ((acc, workers), w)"
| "dispatch E c i (s # ss) acc workers w =
     (let s1 = tenant_view c s;
          acc1 = acc @ [\<lparr>Storage = s1, MountDetails = None\<rparr>]
      in if HideStorageDetailsInManagePage E (store w) then dispatch E c (i + 1) ss acc1 workers w
         else
           (let (d, w1) = invoke (OpGetStorageByMountPath (MountPath s1))
                            (op_GetStorageByMountPath E (MountPath s1)) w
            in (case d of
                  Inl e \<Rightarrow> dispatch E c (i + 1) ss acc1 workers w1
                | Inr dri \<Rightarrow>
                    if \<not> WithDetails dri then dispatch E c (i + 1) ss acc1 workers w1
                    else dispatch E c (i + 1) ss acc1 (workers @ [(dri, i)]) w1)))"

text \<open>
  The body of a worker goroutine (lines 67-75): the message it sends on \<^verbatim>\<open>detailsChan\<close>,
  and whether it logs the error of the fetch.
\<close>

definition worker :: "'w env \<Rightarrow> Driver_inst \<Rightarrow> nat \<Rightarrow> detailWithIndex \<times> bool" where
  "worker E dri i =
     (let (details, e) = op_GetStorageDetails E dri
      in (\<lparr>idx = i, val = details\<rparr>,
          (case e of
             None \<Rightarrow> False
           | Some er \<Rightarrow> \<not> errors_Is er NotImplement \<and> \<not> errors_Is er StorageNotInit)))"

text \<open>
  Time is counted in nanoseconds from the moment the collection loop starts, as
  \<^verbatim>\<open>time.Duration\<close> counts it. When, and whether, a worker reports is decided by the
  backend and the scheduler: \<open>arrival i\<close> is the time at which the message of the worker
  for slot \<open>i\<close> is in the channel (\<open>0\<close> when it was there before the loop started), and
  \<open>None\<close> when that worker never reports. The channel is buffered for every worker, so
  no send blocks, and it hands messages out in the order of their arrival.
\<close>

definition time_Second :: nat where
  "time_Second = 1000000000"

definition detailsChan ::
  "'w env \<Rightarrow> (nat \<Rightarrow> nat option) \<Rightarrow> (Driver_inst \<times> nat) list \<Rightarrow> (nat \<times> detailWithIndex) list" where
  "detailsChan E arrival workers =
     sort_key fst
       (List.map_filter
          (\<lambda>(dri, i). case arrival i of None \<Rightarrow> None | Some t \<Rightarrow> Some (t, fst (worker E dri i)))
          workers)"

text \<open>
  The collection loop (lines 77-85). Each pass evaluates \<^verbatim>\<open>time.After(time.Second * 3)\<close>
  anew, at the time \<open>now\<close> at which the \<^verbatim>\<open>select\<close> starts: the pass receives the next message
  when it is in the channel before that timer fires, and otherwise the timer fires at
  \<open>now + 3 s\<close> and sets \<^verbatim>\<open>workerCount\<close> to zero (when both are ready at the same instant Go
  may take either; here the timer wins). \<open>written\<close> lists the slots assigned so far; an
  index outside \<^verbatim>\<open>ret\<close> would be a run-time panic, the result \<open>None\<close>.
\<close>

record collected =
  responses :: "StorageResp list"
  slots_written :: "nat list"
  finished_at :: nat

function collect ::
  "nat \<Rightarrow> (nat \<times> detailWithIndex) list \<Rightarrow> StorageResp list \<Rightarrow> nat list \<Rightarrow> nat \<Rightarrow> collected option" where
  "collect workerCount chan resps written now =
     (if workerCount > 0 then
        (case chan of
           [] \<Rightarrow> collect 0 chan resps written (now + time_Second * 3)
         | (t, r) # chan' \<Rightarrow>
             if t < now + time_Second * 3 then
               (if idx r < length resps then
                  collect (workerCount - 1) chan'
                    (resps[idx r := (resps ! idx r)\<lparr>MountDetails := val r\<rparr>])
                    (written @ [idx r]) (max now t)
                else None)
             else collect 0 chan resps written (now + time_Second * 3))
      else Some \<lparr>responses = resps, slots_written = written, finished_at = now\<rparr>)"
  by pat_completeness auto
termination
  by (relation "measure (\<lambda>(workerCount, chan, resps, written, now). workerCount)") auto

definition makeStorageResp ::
  "'w env \<Rightarrow> gin_Context \<Rightarrow> (nat \<Rightarrow> nat option) \<Rightarrow> Storage list \<Rightarrow> 'w world
     \<Rightarrow> collected option \<times> 'w world" where
  "makeStorageResp E c arrival storages w =
     (let ((resps, workers), w1) = dispatch E c 0 storages [] [] w;
          workerCount = length workers
      in (collect workerCount (detailsChan E arrival workers) resps [] 0, w1))"

text \<open>\<^verbatim>\<open>ListStorages\<close>. \<open>bind\<close> is the result of \<^verbatim>\<open>c.ShouldBind(&req)\<close>.\<close>

definition ListStorages ::
  "'w env \<Rightarrow> gin_Context \<Rightarrow> err + PageReq \<Rightarrow> (nat \<Rightarrow> nat option) \<Rightarrow> 'w world
     \<Rightarrow> response \<times> 'w world" where
  "ListStorages E c bind arrival w =
     (case bind of
        Inl e \<Rightarrow> (ErrorResp e 400, w)
      | Inr req0 \<Rightarrow>
          (let req = PageReq_Validate E req0;
               (r, w1) = invoke (DbGetStorages (Page req) (PerPage req))
                           (db_GetStorages E (Page req) (PerPage req)) w
           in (case r of
                 Inl e \<Rightarrow> (ErrorResp e 500, w1)
               | Inr (storages, total_count) \<Rightarrow>
                   (case makeStorageResp E c arrival (filterStorages c storages) w1 of
                      (None, w2) \<Rightarrow> (Panicked, w2)
                    | (Some res, w2) \<Rightarrow> (SuccessResp (PageResp (responses res) total_count), w2)))))"

text \<open>
  \<^verbatim>\<open>LoadAllStorages\<close>. \<open>reload_one\<close> is the body of the goroutine's loop (lines 320-335),
  where each \<^verbatim>\<open>continue\<close> ends the body; \<open>reload_loop\<close> is the loop and \<open>reload_task\<close> the
  goroutine, which ends with the loaded signal. The handler returns its answer, the task
  it started (to be run by the scheduler from some later state of the world) and the
  world as it is when it answers.
\<close>

definition reload_one :: "'w env \<Rightarrow> Storage \<Rightarrow> 'w world \<Rightarrow> 'w world" where
  "reload_one E storage w =
     (let (r, w1) = invoke (OpGetStorageByMountPath (MountPath storage))
                      (op_GetStorageByMountPath E (MountPath storage)) w
      in (case r of
            Inl e \<Rightarrow> record_call (LogErrorf ''failed get storage driver: %+v'') w1
          | Inr storageDriver \<Rightarrow>
              (let (e1, w2) = invoke (DriverDrop storageDriver) (Drop E storageDriver) w1
               in (case e1 of
                     Some e \<Rightarrow> record_call (LogErrorf ''failed drop storage: %+v'') w2
                   | None \<Rightarrow>
                       (let (e2, w3) = invoke (OpLoadStorage storage) (op_LoadStorage E storage) w2
                        in (case e2 of
                              Some e \<Rightarrow>
                                record_call (LogErrorf ''failed get enabled storages: %+v'') w3
                            | None \<Rightarrow>
                                record_call
                                  (LogInfof ''success load storage: [%s], driver: [%s]'') w3))))))"

fun reload_loop :: "'w env \<Rightarrow> Storage list \<Rightarrow> 'w world \<Rightarrow> 'w world" where
  "reload_loop E [] w = w"
| "reload_loop E (storage # rest) w = reload_loop E rest (reload_one E storage w)"

definition reload_task :: "'w env \<Rightarrow> Storage list \<Rightarrow> 'w world \<Rightarrow> 'w world" where
  "reload_task E storages w = conf_SendStoragesLoadedSignal (reload_loop E storages w)"

definition LoadAllStorages ::
  "'w env \<Rightarrow> 'w world \<Rightarrow> response \<times> ('w world \<Rightarrow> 'w world) option \<times> 'w world" where
  "LoadAllStorages E w =
     (let (r, w1) = invoke DbGetEnabledStorages (db_GetEnabledStorages E) w
      in (case r of
            Inl e \<Rightarrow>
              (ErrorResp e 500, None,
               record_call (LogErrorf ''failed get enabled storages: %+v'') w1)
          | Inr storages \<Rightarrow>
              (SuccessResp NoData, Some (reload_task E storages), conf_ResetStoragesLoadSignal w1)))"

section \<open>An in-memory store for the concrete instances\<close>

text \<open>
  A small instance of the collaborators, used where a property is shown on concrete
  requests: the store is a list of records, a record resolves to a driver when it is
  not disabled, only drivers of type \<open>Local\<close> have the details capability, and the
  \<open>Addition\<close> field decides which backend operations fail.
\<close>

definition mem_env :: "Storage list env" where
  "mem_env =
     \<lparr>PageReq_Validate = (\<lambda>r. r),
      db_GetStorages = (\<lambda>pg per tbl. (Inr (tbl, int (length tbl)), tbl)),
      db_GetStorageById =
        (\<lambda>n tbl. (case find (\<lambda>s. ID s = n) tbl of
                      None \<Rightarrow> Inl (ErrMsg ''record not found'')
                    | Some s \<Rightarrow> Inr s, tbl)),
      db_GetEnabledStorages = (\<lambda>tbl. (Inr (filter (\<lambda>s. \<not> Disabled s) tbl), tbl)),
      op_CreateStorage =
        (\<lambda>s tbl. ((Suc (length tbl), None), tbl @ [s\<lparr>ID := Suc (length tbl)\<rparr>])),
      op_UpdateStorage = (\<lambda>s tbl. (None, map (\<lambda>x. if ID x = ID s then s else x) tbl)),
      op_DeleteStorageById = (\<lambda>n tbl. (None, filter (\<lambda>s. ID s \<noteq> n) tbl)),
      op_DisableStorage =
        (\<lambda>n tbl. (None, map (\<lambda>x. if ID x = n then x\<lparr>Disabled := True\<rparr> else x) tbl)),
      op_EnableStorage =
        (\<lambda>n tbl. (None, map (\<lambda>x. if ID x = n then x\<lparr>Disabled := False\<rparr> else x) tbl)),
      op_GetStorageByMountPath =
        (\<lambda>p tbl. (case find (\<lambda>s. MountPath s = p \<and> \<not> Disabled s) tbl of
                      None \<Rightarrow> Inl (ErrMsg ''storage not found'')
                    | Some s \<Rightarrow> Inr \<lparr>driver_GetStorage = s, WithDetails = (Driver s = ''Local'')\<rparr>,
                    tbl)),
      op_GetStorageDetails =
        (\<lambda>d. if Addition (driver_GetStorage d) = ''offline'' then (None, Some StorageNotInit)
              else (Some \<lparr>TotalSpace = 100, FreeSpace = ID (driver_GetStorage d)\<rparr>, None)),
      op_LoadStorage =
        (\<lambda>s tbl. (if Addition s = ''bad'' then Some (ErrMsg ''init failed'') else None, tbl)),
      Drop =
        (\<lambda>d tbl. (if Addition (driver_GetStorage d) = ''stuck'' then Some (ErrMsg ''drop failed'')
                    else None, tbl)),
      HideStorageDetailsInManagePage = (\<lambda>tbl. False)\<rparr>"

definition mk_storage :: "nat \<Rightarrow> string \<Rightarrow> Storage" where
  "mk_storage i p =
     \<lparr>ID = i, MountPath = p, Driver = ''Local'', Disabled = False, Addition = []\<rparr>"

definition tenant :: User where
  "tenant = \<lparr>Username = ''u1'', IsAdmin = False, BasePath = ''/u1''\<rparr>"

definition mem_world :: "Storage list world" where
  "mem_world =
     \<lparr>store = [mk_storage 1 ''/u1/drive'', mk_storage 2 ''/u2/x''],
      signal = NotLoaded, calls = []\<rparr>"

text \<open>
  What one pass of the collection loop does to \<^verbatim>\<open>ret\<close> on receiving the message \<open>m\<close>
  (line 80), named for the statements about the loop.
\<close>

definition assign :: "StorageResp list \<Rightarrow> nat \<times> detailWithIndex \<Rightarrow> StorageResp list" where
  "assign rs m = rs[idx (snd m) := (rs ! idx (snd m))\<lparr>MountDetails := val (snd m)\<rparr>]"

text \<open>
  A batch for the aggregation: record 1 answers after one second, record 2 has a driver
  without the details capability, the fetch for record 3 fails (after 1.5 s), the
  backend of record 4 never answers, record 5 answers after two seconds, and the path
  of the last record resolves to no driver.
\<close>

definition batch :: "Storage list" where
  "batch =
     [mk_storage 1 ''/a'',
      (mk_storage 2 ''/b'')\<lparr>Driver := ''S3''\<rparr>,
      (mk_storage 3 ''/c'')\<lparr>Addition := ''offline''\<rparr>,
      mk_storage 4 ''/d'',
      mk_storage 5 ''/e'',
      mk_storage 6 ''/gone'']"

definition batch_world :: "Storage list world" where
  "batch_world = \<lparr>store = take 5 batch, signal = Loaded, calls = []\<rparr>"

definition batch_arrival :: "nat \<Rightarrow> nat option" where
  "batch_arrival i =
     (if i = 0 then Some 1000000000
      else if i = 2 then Some 1500000000
      else if i = 4 then Some 2000000000
      else None)"

definition admin :: User where
  "admin = \<lparr>Username = ''root'', IsAdmin = True, BasePath = ''/''\<rparr>"

text \<open>The paths for which a record of calls asked for the live driver, in order.\<close>

fun resolved_paths :: "call list \<Rightarrow> string list" where
  "resolved_paths [] = []"
| "resolved_paths (OpGetStorageByMountPath p # cs) = p # resolved_paths cs"
| "resolved_paths (c # cs) = resolved_paths cs"

text \<open>Five enabled storages; the driver of the third cannot be dropped.\<close>

definition five :: "Storage list" where
  "five =
     [mk_storage 1 ''/s1'', mk_storage 2 ''/s2'',
      (mk_storage 3 ''/s3'')\<lparr>Addition := ''stuck''\<rparr>,
      mk_storage 4 ''/s4'', mk_storage 5 ''/s5'']"

definition five_world :: "Storage list world" where
  "five_world = \<lparr>store = five, signal = Loaded, calls = []\<rparr>"

text \<open>The storages a record of calls re-initialised, in order.\<close>

fun reinitialised :: "call list \<Rightarrow> Storage list" where
  "reinitialised [] = []"
| "reinitialised (OpLoadStorage s # cs) = s # reinitialised cs"
| "reinitialised (c # cs) = reinitialised cs"

section \<open>The spec's path scope, in the spec's words\<close>

text \<open>
  The spec (4.1, 9) asks that containment be decided segment by segment: a path is under
  a root when the root's components are the first components of the path. \<open>segments\<close>
  splits a path at slashes, dropping empty components; \<open>IsUnderRoot_spec\<close> is that
  containment. It follows the spec's words, to be compared with what the handlers do.
\<close>

function segments :: "string \<Rightarrow> string list" where
  "segments [] = []"
| "segments (c # cs) =
     (if c = CHR ''/'' then segments cs
      else (c # takeWhile (\<lambda>x. x \<noteq> CHR ''/'') cs) # segments (dropWhile (\<lambda>x. x \<noteq> CHR ''/'') cs))"
  by pat_completeness auto
termination
  by (relation "measure length")
     (auto simp: less_Suc_eq_le length_dropWhile_le)

definition IsUnderRoot_spec :: "string \<Rightarrow> string \<Rightarrow> bool" where
  "IsUnderRoot_spec p root =
     (take (length (segments root)) (segments p) = segments root)"

text \<open>
  The spec's round trip \<open>ToRelative(ToAbsolute(p, r), r)\<close>, as a function of the path.
\<close>

definition roundtrip :: "string \<Rightarrow> string \<Rightarrow> string" where
  "roundtrip root p = ToRelative (ToAbsolute p root) root"

text \<open>A tenant whose root is \<open>/ab\<close>, and a store with one record, mounted at \<open>/abcd\<close>.\<close>

definition tenant_ab :: User where
  "tenant_ab = \<lparr>Username = ''ab'', IsAdmin = False, BasePath = ''/ab''\<rparr>"

definition abcd_world :: "Storage list world" where
  "abcd_world = \<lparr>store = [mk_storage 1 ''/abcd''], signal = Loaded, calls = []\<rparr>"

text \<open>
  A clean absolute path other than the root: \<open>/seg/.../seg\<close>, no empty, \<open>.\<close> or \<open>..\<close>
  segment and no trailing slash. These are the paths \<^verbatim>\<open>path.Clean\<close> leaves as they are.
\<close>

definition plain_segment :: "string \<Rightarrow> bool" where
  "plain_segment s = (s \<noteq> ''.'' \<and> s \<noteq> ''..'')"

definition rooted_of :: "string list \<Rightarrow> string" where
  "rooted_of segs = concat (map (\<lambda>s. CHR ''/'' # s) segs)"

definition clean_abs :: "string \<Rightarrow> bool" where
  "clean_abs p =
     (segments p \<noteq> [] \<and> list_all plain_segment (segments p) \<and> p = rooted_of (segments p))"

text \<open>
  What \<^verbatim>\<open>path.Clean\<close> does with one real path element of a rooted path: a slash
  unless the output is just the leading slash, then the element.
\<close>

definition add_segment :: "string \<Rightarrow> string \<Rightarrow> string" where
  "add_segment out s = (if length out \<noteq> 1 then out @ ''/'' else out) @ s"

section \<open>Properties\<close>

subsection \<open>Calls to the collaborators\<close>

lemma invoke_eq:
  "f (store w) = (r, s1) \<Longrightarrow> invoke c f w = (r, w\<lparr>store := s1, calls := calls w @ [c]\<rparr>)"
  by (simp add: invoke_def record_call_def)

lemma finish_invoke:
  "finish (invoke c f w) =
     (case f (store w) of (e, s2) \<Rightarrow>
        ((case e of None \<Rightarrow> SuccessResp NoData | Some er \<Rightarrow> ErrorResp er 500),
         w\<lparr>store := s2, calls := calls w @ [c]\<rparr>))"
  by (simp add: finish_def invoke_def record_call_def split: prod.splits option.splits)

lemma uint_small [simp]: "uint 1 = 1" "uint 2 = 2" "uint 7 = 7"
  by (simp_all add: uint_def)

lemma mem_load_1:
  "db_GetStorageById mem_env (uint 1) (store mem_world)
     = (Inr (mk_storage 1 ''/u1/drive''), store mem_world)"
  by (simp add: mem_env_def mem_world_def mk_storage_def)

lemma mem_load_2:
  "db_GetStorageById mem_env (uint 2) (store mem_world)
     = (Inr (mk_storage 2 ''/u2/x''), store mem_world)"
  by (simp add: mem_env_def mem_world_def mk_storage_def)

lemma mem_load_7:
  "db_GetStorageById mem_env (uint 7) (store mem_world)
     = (Inl (ErrMsg ''record not found''), store mem_world)"
  by (simp add: mem_env_def mem_world_def mk_storage_def)

lemma tenant_not_admin: "\<not> IsAdmin tenant"
  by (simp add: tenant_def)

subsection \<open>Delete, Disable, Enable\<close>

lemma owner_gate_denied:
  assumes "\<not> IsAdmin u" and "db_GetStorageById E (uint n) (store w) = (r, s1)"
    and "case r of Inl e \<Rightarrow> True | Inr oldS \<Rightarrow> \<not> strings_HasPrefix (MountPath oldS) (BasePath u)"
  shows "owner_gate E (Some u) n w =
           (Some (ErrorStrResp ''permission denied or storage not found'' 403),
            w\<lparr>store := s1, calls := calls w @ [DbGetStorageById (uint n)]\<rparr>)"
  using assms by (simp add: owner_gate_def invoke_eq)

lemma owner_gate_passed:
  assumes "\<not> IsAdmin u" and "db_GetStorageById E (uint n) (store w) = (Inr oldS, s1)"
    and "strings_HasPrefix (MountPath oldS) (BasePath u)"
  shows "owner_gate E (Some u) n w =
           (None, w\<lparr>store := s1, calls := calls w @ [DbGetStorageById (uint n)]\<rparr>)"
  using assms by (simp add: owner_gate_def invoke_eq)

text \<open>
  C6. For a non-admin caller, Delete, Disable and Enable of id \<open>n\<close> first load the record.
  When the load fails, or the record's \<open>MountPath\<close> does not have the caller's \<open>BasePath\<close>
  as a prefix, each of the three answers status 403 with the one message
  "permission denied or storage not found", the same in both cases, and the only call
  made is the load. Only otherwise is the op-layer function of the handler invoked, and
  the answer is then its result (500 with its error, or success).
\<close>

theorem C6_scoped_ops_gate:
  assumes "\<not> IsAdmin u" and "db_GetStorageById E (uint n) (store w) = (r, s1)"
  shows "let w1 = w\<lparr>store := s1, calls := calls w @ [DbGetStorageById (uint n)]\<rparr>;
             denied = (ErrorStrResp ''permission denied or storage not found'' 403, w1);
             run = (\<lambda>c f. case f s1 of (e, s2) \<Rightarrow>
                      ((case e of None \<Rightarrow> SuccessResp NoData | Some er \<Rightarrow> ErrorResp er 500),
                       w1\<lparr>store := s2, calls := calls w1 @ [c]\<rparr>))
         in if (case r of Inl e \<Rightarrow> True
                | Inr oldS \<Rightarrow> \<not> strings_HasPrefix (MountPath oldS) (BasePath u))
            then DeleteStorage E (Some u) (Inr n) w = denied
               \<and> DisableStorage E (Some u) (Inr n) w = denied
               \<and> EnableStorage E (Some u) (Inr n) w = denied
            else DeleteStorage E (Some u) (Inr n) w =
                   run (OpDeleteStorageById (uint n)) (op_DeleteStorageById E (uint n))
               \<and> DisableStorage E (Some u) (Inr n) w =
                   run (OpDisableStorage (uint n)) (op_DisableStorage E (uint n))
               \<and> EnableStorage E (Some u) (Inr n) w =
                   run (OpEnableStorage (uint n)) (op_EnableStorage E (uint n))"
proof (cases "case r of Inl e \<Rightarrow> True
                | Inr oldS \<Rightarrow> \<not> strings_HasPrefix (MountPath oldS) (BasePath u)")
  case True
  from owner_gate_denied[OF assms True] True show ?thesis
    by (simp add: DeleteStorage_def DisableStorage_def EnableStorage_def)
next
  case False
  then obtain oldS where r: "r = Inr oldS" and p: "strings_HasPrefix (MountPath oldS) (BasePath u)"
    by (cases r) auto
  from owner_gate_passed[OF assms(1) assms(2)[unfolded r] p] False show ?thesis
    by (simp add: DeleteStorage_def DisableStorage_def EnableStorage_def finish_invoke)
qed

text \<open>
  The tenant of \<open>/u1\<close> deleting record 2 (which exists, under \<open>/u2\<close>) and record 7 (which
  does not exist) gets the same answer and reaches no op-layer function; deleting its own
  record 1 goes through.
\<close>

theorem C6_scoped_ops_gate_witness:
  "fst (DeleteStorage mem_env (Some tenant) (Inr 2) mem_world)
     = ErrorStrResp ''permission denied or storage not found'' 403
   \<and> fst (DeleteStorage mem_env (Some tenant) (Inr 7) mem_world)
     = ErrorStrResp ''permission denied or storage not found'' 403
   \<and> calls (snd (DeleteStorage mem_env (Some tenant) (Inr 2) mem_world)) = [DbGetStorageById 2]
   \<and> calls (snd (DeleteStorage mem_env (Some tenant) (Inr 7) mem_world)) = [DbGetStorageById 7]
   \<and> DeleteStorage mem_env (Some tenant) (Inr 1) mem_world
     = (SuccessResp NoData,
        \<lparr>store = [mk_storage 2 ''/u2/x''], signal = NotLoaded,
         calls = [DbGetStorageById 1, OpDeleteStorageById 1]\<rparr>)"
proof -
  have p1: "strings_HasPrefix ''/u1/drive'' ''/u1''" and p2: "\<not> strings_HasPrefix ''/u2/x'' ''/u1''"
    by (simp_all add: strings_HasPrefix_def)
  have d1: "op_DeleteStorageById mem_env 1 (store mem_world) = (None, [mk_storage 2 ''/u2/x''])"
    by (simp add: mem_env_def mem_world_def mk_storage_def)
  show ?thesis
    using C6_scoped_ops_gate[OF tenant_not_admin mem_load_1]
      C6_scoped_ops_gate[OF tenant_not_admin mem_load_2]
      C6_scoped_ops_gate[OF tenant_not_admin mem_load_7] p1 p2 d1
    by (simp add: Let_def tenant_def mk_storage_def mem_world_def)
qed

subsection \<open>Get\<close>

text \<open>
  C10. GetStorage loads the record before it looks at the caller. For every caller,
  admin or not, a failed load is answered with the store's error and status 500; an
  existing record outside a non-admin caller's \<open>BasePath\<close> is answered 403 "permission
  denied". The two answers differ, so Get tells a missing id from one out of scope,
  while Delete, Disable and Enable answer both with the same 403.
\<close>

theorem C10_get_loads_before_check:
  assumes "db_GetStorageById E (uint n) (store w) = (r, s1)"
  shows "let w1 = w\<lparr>store := s1, calls := calls w @ [DbGetStorageById (uint n)]\<rparr>;
             combined = ErrorStrResp ''permission denied or storage not found'' 403
         in (case r of
               Inl e \<Rightarrow>
                 GetStorage E (Some u) (Inr n) w = (ErrorResp e 500, w1)
                 \<and> (\<not> IsAdmin u \<longrightarrow>
                      fst (DeleteStorage E (Some u) (Inr n) w) = combined
                    \<and> fst (DisableStorage E (Some u) (Inr n) w) = combined
                    \<and> fst (EnableStorage E (Some u) (Inr n) w) = combined)
             | Inr storage \<Rightarrow>
                 \<not> IsAdmin u \<and> \<not> strings_HasPrefix (MountPath storage) (BasePath u) \<longrightarrow>
                   GetStorage E (Some u) (Inr n) w = (ErrorStrResp ''permission denied'' 403, w1)
                 \<and> fst (DeleteStorage E (Some u) (Inr n) w) = combined
                 \<and> fst (DisableStorage E (Some u) (Inr n) w) = combined
                 \<and> fst (EnableStorage E (Some u) (Inr n) w) = combined)"
proof (cases r)
  case (Inl e)
  have g: "GetStorage E (Some u) (Inr n) w
             = (ErrorResp e 500, w\<lparr>store := s1, calls := calls w @ [DbGetStorageById (uint n)]\<rparr>)"
    using assms Inl by (simp add: GetStorage_def invoke_eq)
  have d: "\<not> IsAdmin u \<Longrightarrow>
            owner_gate E (Some u) n w =
              (Some (ErrorStrResp ''permission denied or storage not found'' 403),
               w\<lparr>store := s1, calls := calls w @ [DbGetStorageById (uint n)]\<rparr>)"
    using owner_gate_denied[OF _ assms] Inl by simp
  show ?thesis using Inl g d
    by (simp add: DeleteStorage_def DisableStorage_def EnableStorage_def)
next
  case (Inr storage)
  have g: "\<not> IsAdmin u \<Longrightarrow> \<not> strings_HasPrefix (MountPath storage) (BasePath u) \<Longrightarrow>
           GetStorage E (Some u) (Inr n) w
             = (ErrorStrResp ''permission denied'' 403,
                w\<lparr>store := s1, calls := calls w @ [DbGetStorageById (uint n)]\<rparr>)"
    using assms Inr by (simp add: GetStorage_def invoke_eq)
  have d: "\<not> IsAdmin u \<Longrightarrow> \<not> strings_HasPrefix (MountPath storage) (BasePath u) \<Longrightarrow>
            owner_gate E (Some u) n w =
              (Some (ErrorStrResp ''permission denied or storage not found'' 403),
               w\<lparr>store := s1, calls := calls w @ [DbGetStorageById (uint n)]\<rparr>)"
    using owner_gate_denied[OF _ assms] Inr by simp
  show ?thesis using Inr g d
    by (simp add: DeleteStorage_def DisableStorage_def EnableStorage_def)
qed

text \<open>
  For the tenant of \<open>/u1\<close>: Get of the missing id 7 is a 500 with the store's error, Get
  of record 2 under \<open>/u2\<close> is a 403, and Delete answers both alike.
\<close>

theorem C10_get_loads_before_check_witness:
  "fst (GetStorage mem_env (Some tenant) (Inr 7) mem_world)
     = ErrorResp (ErrMsg ''record not found'') 500
   \<and> fst (GetStorage mem_env (Some tenant) (Inr 2) mem_world)
     = ErrorStrResp ''permission denied'' 403
   \<and> fst (DeleteStorage mem_env (Some tenant) (Inr 7) mem_world)
     = fst (DeleteStorage mem_env (Some tenant) (Inr 2) mem_world)
   \<and> fst (GetStorage mem_env (Some (tenant\<lparr>IsAdmin := True\<rparr>)) (Inr 7) mem_world)
     = ErrorResp (ErrMsg ''record not found'') 500"
proof -
  have p2: "\<not> strings_HasPrefix ''/u2/x'' ''/u1''"
    by (simp add: strings_HasPrefix_def)
  show ?thesis
    using C10_get_loads_before_check[OF mem_load_7, of tenant]
      C10_get_loads_before_check[OF mem_load_2, of tenant]
      C10_get_loads_before_check[OF mem_load_7, of "tenant\<lparr>IsAdmin := True\<rparr>"] p2
    by (simp add: Let_def tenant_def mk_storage_def)
qed

subsection \<open>Create and Update\<close>

lemma Join_u1_drive: "path_Join [''/u1'', ''/drive''] = ''/u1/drive''"
  by (simp add: path_Join_def Join_step_def path_Clean_def Clean_loop.simps)

text \<open>
  C4. A non-admin Create whose \<open>MountPath\<close> does not have the caller's \<open>BasePath\<close> as a
  prefix has it replaced by \<^verbatim>\<open>path.Join(BasePath, MountPath)\<close>. When the path, rewritten or
  not, still lacks the prefix, the answer is 403 and nothing is called (the world is
  unchanged). Otherwise \<^verbatim>\<open>op.CreateStorage\<close> is called with the rewritten record and its id
  is returned: in a success answer, or in a 500 answer carrying the error and the id.
  With \<open>BasePath = /u1\<close> and request path \<open>/drive\<close>, the record handed to the store has the
  path \<open>/u1/drive\<close>.
\<close>

theorem C4_create_scoped:
  assumes "\<not> IsAdmin u"
    and "p1 = (if strings_HasPrefix (MountPath req) (BasePath u) then MountPath req
               else path_Join [BasePath u, MountPath req])"
    and "op_CreateStorage E (req\<lparr>MountPath := p1\<rparr>) (store w) = ((new_id, e), s1)"
  shows "(if \<not> strings_HasPrefix p1 (BasePath u) then
            CreateStorage E (Some u) (Inr req) w =
              (ErrorStrResp (''permission denied: you can only mount under '' @ BasePath u) 403, w)
          else
            CreateStorage E (Some u) (Inr req) w =
              (let w1 = w\<lparr>store := s1, calls := calls w @ [OpCreateStorage (req\<lparr>MountPath := p1\<rparr>)]\<rparr>
               in case e of
                    None \<Rightarrow> (SuccessResp (IdData new_id), w1)
                  | Some er \<Rightarrow>
                      (ErrorWithDataResp er 500 (IdData new_id),
                       w1\<lparr>calls := calls w1 @ [LogErrorf ''Debug CreateStorage Failed: %v'']\<rparr>)))
         \<and> (BasePath u = ''/u1'' \<and> MountPath req = ''/drive'' \<longrightarrow> p1 = ''/u1/drive'')"
proof -
  have a: "ToAbsolute (MountPath req) (BasePath u) = p1"
    using assms(2) by (simp add: ToAbsolute_def)
  have c: "BasePath u = ''/u1'' \<Longrightarrow> MountPath req = ''/drive'' \<Longrightarrow> p1 = ''/u1/drive''"
    using assms(2) Join_u1_drive by (simp add: strings_HasPrefix_def)
  show ?thesis
    using assms(1,3) a c
    by (simp add: CreateStorage_def Let_def invoke_eq record_call_def split: option.splits)
qed

text \<open>
  The tenant of \<open>/u1\<close> creating \<open>/drive\<close> in the in-memory store: the stored record has
  the path \<open>/u1/drive\<close> and the new id 3 is returned.
\<close>

theorem C4_create_scoped_witness:
  "CreateStorage mem_env (Some tenant) (Inr (mk_storage 0 ''/drive'')) mem_world
     = (SuccessResp (IdData 3),
        \<lparr>store = [mk_storage 1 ''/u1/drive'', mk_storage 2 ''/u2/x'', mk_storage 3 ''/u1/drive''],
         signal = NotLoaded,
         calls = [OpCreateStorage (mk_storage 0 ''/u1/drive'')]\<rparr>)"
proof -
  have p: "\<not> strings_HasPrefix ''/drive'' ''/u1''" "strings_HasPrefix ''/u1/drive'' ''/u1''"
    by (simp_all add: strings_HasPrefix_def)
  have o: "op_CreateStorage mem_env ((mk_storage 0 ''/drive'')\<lparr>MountPath := ''/u1/drive''\<rparr>)
             (store mem_world)
           = ((3, None), [mk_storage 1 ''/u1/drive'', mk_storage 2 ''/u2/x'', mk_storage 3 ''/u1/drive''])"
    by (simp add: mem_env_def mem_world_def mk_storage_def)
  show ?thesis
    using C4_create_scoped[OF tenant_not_admin _ o] Join_u1_drive p
    by (simp add: tenant_def mk_storage_def mem_world_def)
qed

text \<open>
  C5. A non-admin Update first loads the existing record by the id of the request. A
  failed load is answered with the store's error (500). When the existing record's
  \<open>MountPath\<close> lacks the caller's \<open>BasePath\<close> as a prefix the answer is 403 "permission
  denied". In both cases the load is the only call. Only for an owned record is the new
  path rewritten and checked as in Create (403 when it still lacks the prefix, again
  without a call to the update), and only then is \<^verbatim>\<open>op.UpdateStorage\<close> called, with the
  rewritten record.
\<close>

theorem C5_update_scoped:
  assumes "\<not> IsAdmin u"
    and "db_GetStorageById E (ID req) (store w) = (r, s1)"
    and "p1 = (if strings_HasPrefix (MountPath req) (BasePath u) then MountPath req
               else path_Join [BasePath u, MountPath req])"
  shows "let w1 = w\<lparr>store := s1, calls := calls w @ [DbGetStorageById (ID req)]\<rparr>
         in UpdateStorage E (Some u) (Inr req) w =
              (case r of
                 Inl e \<Rightarrow> (ErrorResp e 500, w1)
               | Inr oldS \<Rightarrow>
                   if \<not> strings_HasPrefix (MountPath oldS) (BasePath u) then
                     (ErrorStrResp ''permission denied'' 403, w1)
                   else if \<not> strings_HasPrefix p1 (BasePath u) then
                     (ErrorStrResp (''permission denied: you can only mount under '' @ BasePath u) 403,
                      w1)
                   else
                     (case op_UpdateStorage E (req\<lparr>MountPath := p1\<rparr>) s1 of
                        (e, s2) \<Rightarrow>
                          ((case e of None \<Rightarrow> SuccessResp NoData | Some er \<Rightarrow> ErrorResp er 500),
                           w1\<lparr>store := s2,
                              calls := calls w1 @ [OpUpdateStorage (req\<lparr>MountPath := p1\<rparr>)]\<rparr>)))"
proof -
  have a: "ToAbsolute (MountPath req) (BasePath u) = p1"
    using assms(3) by (simp add: ToAbsolute_def)
  show ?thesis
    using assms(1,2) a
    by (simp add: UpdateStorage_def Let_def invoke_eq invoke_def record_call_def
          split: sum.splits option.splits prod.splits)
qed

text \<open>
  The tenant of \<open>/u1\<close>: moving its own record 1 to \<open>/../u2/y\<close>, which joins to \<open>/u2/y\<close>,
  is refused without a call to the update; updating record 2, which it does not
  own, is refused as well; moving record 1 to \<open>/docs\<close> stores \<open>/u1/docs\<close>.
\<close>

theorem C5_update_scoped_witness:
  "UpdateStorage mem_env (Some tenant) (Inr (mk_storage 1 ''/../u2/y'')) mem_world
     = (ErrorStrResp ''permission denied: you can only mount under /u1'' 403,
        mem_world\<lparr>calls := [DbGetStorageById 1]\<rparr>)
   \<and> UpdateStorage mem_env (Some tenant) (Inr (mk_storage 2 ''/u1/mine'')) mem_world
     = (ErrorStrResp ''permission denied'' 403, mem_world\<lparr>calls := [DbGetStorageById 2]\<rparr>)
   \<and> UpdateStorage mem_env (Some tenant) (Inr (mk_storage 1 ''/docs'')) mem_world
     = (SuccessResp NoData,
        \<lparr>store = [mk_storage 1 ''/u1/docs'', mk_storage 2 ''/u2/x''], signal = NotLoaded,
         calls = [DbGetStorageById 1, OpUpdateStorage (mk_storage 1 ''/u1/docs'')]\<rparr>)"
proof -
  have j: "path_Join [''/u1'', ''/../u2/y''] = ''/u2/y''" "path_Join [''/u1'', ''/docs''] = ''/u1/docs''"
    by (simp_all add: path_Join_def Join_step_def path_Clean_def Clean_loop.simps)
  have p: "\<not> strings_HasPrefix ''/../u2/y'' ''/u1''" "\<not> strings_HasPrefix ''/u2/y'' ''/u1''"
    "strings_HasPrefix ''/u1/drive'' ''/u1''" "\<not> strings_HasPrefix ''/u2/x'' ''/u1''"
    "\<not> strings_HasPrefix ''/docs'' ''/u1''" "strings_HasPrefix ''/u1/docs'' ''/u1''"
    by (simp_all add: strings_HasPrefix_def)
  have l1: "db_GetStorageById mem_env 1 (store mem_world)
              = (Inr (mk_storage 1 ''/u1/drive''), store mem_world)"
    and l2: "db_GetStorageById mem_env 2 (store mem_world)
              = (Inr (mk_storage 2 ''/u2/x''), store mem_world)"
    using mem_load_1 mem_load_2 by simp_all
  have o: "op_UpdateStorage mem_env (mk_storage 1 ''/u1/docs'') (store mem_world)
             = (None, [mk_storage 1 ''/u1/docs'', mk_storage 2 ''/u2/x''])"
    by (simp add: mem_env_def mem_world_def mk_storage_def)
  have a: "UpdateStorage mem_env (Some tenant) (Inr (mk_storage 1 ''/../u2/y'')) mem_world
     = (ErrorStrResp ''permission denied: you can only mount under /u1'' 403,
        mem_world\<lparr>calls := [DbGetStorageById 1]\<rparr>)"
    using C5_update_scoped[OF tenant_not_admin, of mem_env "mk_storage 1 ''/../u2/y''" mem_world
        "Inr (mk_storage 1 ''/u1/drive'')" "store mem_world" "''/u2/y''"] l1 j p
    by (simp add: tenant_def mk_storage_def mem_world_def)
  have b: "UpdateStorage mem_env (Some tenant) (Inr (mk_storage 2 ''/u1/mine'')) mem_world
     = (ErrorStrResp ''permission denied'' 403, mem_world\<lparr>calls := [DbGetStorageById 2]\<rparr>)"
    using C5_update_scoped[OF tenant_not_admin, of mem_env "mk_storage 2 ''/u1/mine''" mem_world
        "Inr (mk_storage 2 ''/u2/x'')" "store mem_world" "''/u1/mine''"] l2 p
    by (simp add: tenant_def mk_storage_def mem_world_def strings_HasPrefix_def)
  have c: "UpdateStorage mem_env (Some tenant) (Inr (mk_storage 1 ''/docs'')) mem_world
     = (SuccessResp NoData,
        \<lparr>store = [mk_storage 1 ''/u1/docs'', mk_storage 2 ''/u2/x''], signal = NotLoaded,
         calls = [DbGetStorageById 1, OpUpdateStorage (mk_storage 1 ''/u1/docs'')]\<rparr>)"
    using C5_update_scoped[OF tenant_not_admin, of mem_env "mk_storage 1 ''/docs''" mem_world
        "Inr (mk_storage 1 ''/u1/drive'')" "store mem_world" "''/u1/docs''"] l1 j p o
    by (simp add: tenant_def mk_storage_def mem_world_def)
  from a b c show ?thesis by simp
qed

subsection \<open>The first loop of makeStorageResp\<close>

lemma dispatch_responses:
  "fst (fst (dispatch E c i ss acc workers w))
     = acc @ map (\<lambda>s. \<lparr>Storage = tenant_view c s, MountDetails = None\<rparr>) ss"
  by (induction ss arbitrary: i acc workers w)
     (auto simp: Let_def split: prod.splits sum.splits)

lemma dispatch_workers:
  "\<exists>ws. snd (fst (dispatch E c i ss acc workers w)) = workers @ ws
        \<and> sorted_wrt (<) (map snd ws)
        \<and> (\<forall>(dri, j) \<in> set ws. i \<le> j \<and> j < i + length ss \<and> WithDetails dri
              \<and> (\<exists>s. \<not> HideStorageDetailsInManagePage E s
                     \<and> fst (op_GetStorageByMountPath E (MountPath (tenant_view c (ss ! (j - i)))) s)
                         = Inr dri))"
proof (induction ss arbitrary: i acc workers w)
  case Nil
  then show ?case by simp
next
  case (Cons s ss)
  let ?P = "\<lambda>i ss (dri, j). i \<le> j \<and> j < i + length ss \<and> WithDetails dri
              \<and> (\<exists>s. \<not> HideStorageDetailsInManagePage E s
                     \<and> fst (op_GetStorageByMountPath E (MountPath (tenant_view c (ss ! (j - i)))) s)
                         = Inr dri)"
  have up: "\<And>x. ?P (i + 1) ss x \<Longrightarrow> ?P i (s # ss) x"
    by (auto simp: Suc_diff_le)
  let ?acc1 = "acc @ [\<lparr>Storage = tenant_view c s, MountDetails = None\<rparr>]"
  show ?case
  proof (cases "HideStorageDetailsInManagePage E (store w)")
    case True
    from Cons.IH[of "i + 1" ?acc1 workers w] obtain ws where
      ws: "snd (fst (dispatch E c (i + 1) ss ?acc1 workers w)) = workers @ ws"
        "sorted_wrt (<) (map snd ws)" "\<forall>x \<in> set ws. ?P (i + 1) ss x"
      by blast
    from ws(3) up have "\<forall>x \<in> set ws. ?P i (s # ss) x" by blast
    with ws(1,2) True show ?thesis by (auto simp: Let_def)
  next
    case False
    obtain d w1 where inv: "invoke (OpGetStorageByMountPath (MountPath (tenant_view c s)))
                            (op_GetStorageByMountPath E (MountPath (tenant_view c s))) w = (d, w1)"
      by (cases "invoke (OpGetStorageByMountPath (MountPath (tenant_view c s)))
                            (op_GetStorageByMountPath E (MountPath (tenant_view c s))) w")
    then have d: "d = fst (op_GetStorageByMountPath E (MountPath (tenant_view c s)) (store w))"
      by (auto simp: invoke_def split: prod.splits)
    show ?thesis
    proof (cases "case d of Inl e \<Rightarrow> False | Inr dri \<Rightarrow> WithDetails dri")
      case no: False
      from Cons.IH[of "i + 1" ?acc1 workers w1] obtain ws where
        ws: "snd (fst (dispatch E c (i + 1) ss ?acc1 workers w1)) = workers @ ws"
          "sorted_wrt (<) (map snd ws)" "\<forall>x \<in> set ws. ?P (i + 1) ss x"
        by blast
      from ws(3) up have "\<forall>x \<in> set ws. ?P i (s # ss) x" by blast
      with ws(1,2) False inv no show ?thesis
        by (auto simp: Let_def split: sum.splits)
    next
      case yes: True
      then obtain dri where dri: "d = Inr dri" "WithDetails dri"
        by (cases d) auto
      from Cons.IH[of "i + 1" ?acc1 "workers @ [(dri, i)]" w1] obtain ws where
        ws: "snd (fst (dispatch E c (i + 1) ss ?acc1 (workers @ [(dri, i)]) w1))
               = (workers @ [(dri, i)]) @ ws"
          "sorted_wrt (<) (map snd ws)" "\<forall>x \<in> set ws. ?P (i + 1) ss x"
        by blast
      from ws(3) up have a: "\<forall>x \<in> set ws. ?P i (s # ss) x" by blast
      have b: "?P i (s # ss) (dri, i)"
        using dri d False by auto
      have c: "\<forall>j \<in> set (map snd ws). i < j"
        using ws(3) by fastforce
      have "snd (fst (dispatch E c i (s # ss) acc workers w)) = workers @ ((dri, i) # ws)"
        using ws(1) False inv dri by (simp add: Let_def)
      moreover have "sorted_wrt (<) (map snd ((dri, i) # ws))"
        using ws(2) c by simp
      moreover have "\<forall>x \<in> set ((dri, i) # ws). ?P i (s # ss) x"
        using a b by simp
      ultimately show ?thesis by blast
    qed
  qed
qed

lemma dispatch_hidden:
  assumes "\<And>s. HideStorageDetailsInManagePage E s"
  shows "dispatch E c i ss acc workers w
           = ((acc @ map (\<lambda>s. \<lparr>Storage = tenant_view c s, MountDetails = None\<rparr>) ss, workers), w)"
  using assms by (induction ss arbitrary: i acc workers) (simp_all add: Let_def)

subsection \<open>The collection loop\<close>

lemma length_assign [simp]: "length (assign rs m) = length rs"
  by (simp add: assign_def)

lemma length_foldl_assign [simp]: "length (foldl assign rs ms) = length rs"
  by (induction ms arbitrary: rs) simp_all

lemma Storage_assign [simp]: "map Storage (assign rs m) = map Storage rs"
  by (cases "idx (snd m) < length rs")
     (simp_all add: assign_def map_update list_update_same_conv list_update_beyond)

lemma Storage_foldl_assign [simp]: "map Storage (foldl assign rs ms) = map Storage rs"
  by (induction ms arbitrary: rs) simp_all

lemma collect_zero:
  "collect 0 chan resps written t
     = Some \<lparr>responses = resps, slots_written = written, finished_at = t\<rparr>"
  by (subst collect.simps) simp

lemma collect_closed_form:
  assumes "\<forall>m \<in> set chan. idx (snd m) < length resps"
  shows "\<exists>k fin. k \<le> workerCount \<and> k \<le> length chan
           \<and> collect workerCount chan resps written now
               = Some \<lparr>responses = foldl assign resps (take k chan),
                       slots_written = written @ map (\<lambda>m. idx (snd m)) (take k chan),
                       finished_at = fin\<rparr>
           \<and> now \<le> fin \<and> fin \<le> now + workerCount * (time_Second * 3)"
  using assms
proof (induction workerCount arbitrary: chan resps written now)
  case 0
  then show ?case using collect_zero[of chan resps written now]
    by (intro exI[of _ 0] exI[of _ now]) simp
next
  case (Suc n)
  have timeout: "collect 0 chan resps written (now + time_Second * 3)
                   = Some \<lparr>responses = foldl assign resps (take 0 chan),
                           slots_written = written @ map (\<lambda>m. idx (snd m)) (take 0 chan),
                           finished_at = now + time_Second * 3\<rparr>
                 \<and> now \<le> now + time_Second * 3
                 \<and> now + time_Second * 3 \<le> now + Suc n * (time_Second * 3)"
    by (simp add: collect_zero)
  show ?case
  proof (cases chan)
    case Nil
    then have "collect (Suc n) chan resps written now
                 = collect 0 chan resps written (now + time_Second * 3)"
      by (subst collect.simps) simp
    with timeout show ?thesis
      by (intro exI[of _ 0] exI[of _ "now + time_Second * 3"]) simp
  next
    case (Cons m chan')
    obtain t r where m: "m = (t, r)" by (cases m)
    show ?thesis
    proof (cases "t < now + time_Second * 3")
      case False
      then have "collect (Suc n) chan resps written now
                   = collect 0 chan resps written (now + time_Second * 3)"
        using Cons m by (subst collect.simps) simp
      with timeout show ?thesis
        by (intro exI[of _ 0] exI[of _ "now + time_Second * 3"]) simp
    next
      case True
      have r: "idx r < length resps" using Suc.prems Cons m by simp
      have step: "collect (Suc n) chan resps written now
                    = collect n chan' (assign resps m) (written @ [idx r]) (max now t)"
        using Cons m True r by (subst collect.simps) (simp add: assign_def)
      have pre: "\<forall>m' \<in> set chan'. idx (snd m') < length (assign resps m)"
        using Suc.prems Cons by simp
      from Suc.IH[OF pre, of "written @ [idx r]" "max now t"]
      obtain k fin where k: "k \<le> n" "k \<le> length chan'"
        "collect n chan' (assign resps m) (written @ [idx r]) (max now t)
           = Some \<lparr>responses = foldl assign (assign resps m) (take k chan'),
                   slots_written = (written @ [idx r]) @ map (\<lambda>m. idx (snd m)) (take k chan'),
                   finished_at = fin\<rparr>"
        "max now t \<le> fin" "fin \<le> max now t + n * (time_Second * 3)"
        by blast
      have "max now t \<le> now + time_Second * 3" using True by simp
      then have "Suc k \<le> Suc n" "Suc k \<le> length chan" "now \<le> fin"
        "fin \<le> now + Suc n * (time_Second * 3)"
        using k Cons by simp_all
      moreover have "collect (Suc n) chan resps written now
             = Some \<lparr>responses = foldl assign resps (take (Suc k) chan),
                     slots_written = written @ map (\<lambda>m. idx (snd m)) (take (Suc k) chan),
                     finished_at = fin\<rparr>"
        unfolding step k(3) by (simp add: Cons m)
      ultimately show ?thesis by blast
    qed
  qed
qed

text \<open>Distinct slots are assigned independently of each other.\<close>

lemma nth_foldl_assign:
  assumes "distinct (map (\<lambda>m. idx (snd m)) ms)" and "i < length rs"
  shows "MountDetails (foldl assign rs ms ! i)
           = (case find (\<lambda>m. idx (snd m) = i) ms of
                None \<Rightarrow> MountDetails (rs ! i)
              | Some m \<Rightarrow> val (snd m))"
  using assms
proof (induction ms arbitrary: rs)
  case Nil
  then show ?case by simp
next
  case (Cons m ms)
  have len: "i < length (assign rs m)" using Cons.prems by simp
  have d: "distinct (map (\<lambda>m. idx (snd m)) ms)" using Cons.prems by simp
  show ?case
  proof (cases "idx (snd m) = i")
    case True
    then have "find (\<lambda>m. idx (snd m) = i) ms = None"
      using Cons.prems(1) by (force simp: find_None_iff image_iff)
    moreover have "MountDetails (assign rs m ! i) = val (snd m)"
      using True Cons.prems(2) by (simp add: assign_def)
    ultimately show ?thesis using Cons.IH[OF d len] True by simp
  next
    case False
    then have "MountDetails (assign rs m ! i) = MountDetails (rs ! i)"
      by (simp add: assign_def)
    then show ?thesis using Cons.IH[OF d len] False by (simp split: option.splits)
  qed
qed

subsection \<open>The channel and the whole of makeStorageResp\<close>

lemma worker_message:
  "idx (fst (worker E dri i)) = i \<and> val (fst (worker E dri i)) = fst (op_GetStorageDetails E dri)"
  by (simp add: worker_def split: prod.splits)

lemma detailsChan_members:
  assumes "m \<in> set (detailsChan E arrival workers)"
  shows "\<exists>dri. (dri, idx (snd m)) \<in> set workers \<and> arrival (idx (snd m)) = Some (fst m)
            \<and> val (snd m) = fst (op_GetStorageDetails E dri)"
  using assms
  by (fastforce simp: detailsChan_def List.map_filter_def worker_message split: option.splits)

lemma detailsChan_indices:
  "map (\<lambda>m. idx (snd m))
       (List.map_filter
          (\<lambda>(dri, i). case arrival i of None \<Rightarrow> None | Some t \<Rightarrow> Some (t, fst (worker E dri i)))
          workers)
     = map snd (filter (\<lambda>(dri, i). arrival i \<noteq> None) workers)"
  by (induction workers) (auto simp: worker_message split: option.splits)

lemma detailsChan_distinct:
  assumes "distinct (map snd workers)"
  shows "distinct (map (\<lambda>m. idx (snd m)) (detailsChan E arrival workers))"
proof -
  let ?xs = "List.map_filter
          (\<lambda>(dri, i). case arrival i of None \<Rightarrow> None | Some t \<Rightarrow> Some (t, fst (worker E dri i)))
          workers"
  have "distinct (map (\<lambda>m. idx (snd m)) ?xs)"
    unfolding detailsChan_indices using assms by (simp add: distinct_map_filter)
  then have "distinct ?xs \<and> inj_on (\<lambda>m. idx (snd m)) (set ?xs)"
    by (simp add: distinct_map)
  then have "distinct (sort_key fst ?xs) \<and> inj_on (\<lambda>m. idx (snd m)) (set (sort_key fst ?xs))"
    by simp
  then show ?thesis
    unfolding detailsChan_def by (simp add: distinct_map)
qed

lemma makeStorageResp_closed_form:
  assumes "dispatch E c 0 storages [] [] w = ((resps0, workers), w1)"
  shows "resps0 = map (\<lambda>s. \<lparr>Storage = tenant_view c s, MountDetails = None\<rparr>) storages
       \<and> sorted_wrt (<) (map snd workers)
       \<and> (\<forall>(dri, j) \<in> set workers. j < length storages \<and> WithDetails dri
              \<and> (\<exists>s. \<not> HideStorageDetailsInManagePage E s
                     \<and> fst (op_GetStorageByMountPath E (MountPath (tenant_view c (storages ! j))) s)
                         = Inr dri))
       \<and> (\<exists>k fin. k \<le> length workers \<and> k \<le> length (detailsChan E arrival workers)
            \<and> fin \<le> length workers * (time_Second * 3)
            \<and> makeStorageResp E c arrival storages w
                = (Some \<lparr>responses = foldl assign resps0 (take k (detailsChan E arrival workers)),
                         slots_written = map (\<lambda>m. idx (snd m)) (take k (detailsChan E arrival workers)),
                         finished_at = fin\<rparr>, w1))"
proof -
  have r0: "resps0 = map (\<lambda>s. \<lparr>Storage = tenant_view c s, MountDetails = None\<rparr>) storages"
    using dispatch_responses[of E c 0 storages "[]" "[]" w] assms by simp
  from dispatch_workers[of E c 0 storages "[]" "[]" w] assms
  have ws: "sorted_wrt (<) (map snd workers)"
    "\<forall>(dri, j) \<in> set workers. j < length storages \<and> WithDetails dri
              \<and> (\<exists>s. \<not> HideStorageDetailsInManagePage E s
                     \<and> fst (op_GetStorageByMountPath E (MountPath (tenant_view c (storages ! j))) s)
                         = Inr dri)"
    by auto
  have "\<forall>m \<in> set (detailsChan E arrival workers). idx (snd m) < length resps0"
  proof
    fix m assume "m \<in> set (detailsChan E arrival workers)"
    from detailsChan_members[OF this] obtain dri where "(dri, idx (snd m)) \<in> set workers"
      by blast
    with ws(2) show "idx (snd m) < length resps0" using r0 by auto
  qed
  from collect_closed_form[OF this, of "length workers" "[]" 0]
  obtain k fin where k: "k \<le> length workers" "k \<le> length (detailsChan E arrival workers)"
    "collect (length workers) (detailsChan E arrival workers) resps0 [] 0
       = Some \<lparr>responses = foldl assign resps0 (take k (detailsChan E arrival workers)),
               slots_written = [] @ map (\<lambda>m. idx (snd m)) (take k (detailsChan E arrival workers)),
               finished_at = fin\<rparr>"
    "fin \<le> 0 + length workers * (time_Second * 3)"
    by blast
  have "makeStorageResp E c arrival storages w
          = (Some \<lparr>responses = foldl assign resps0 (take k (detailsChan E arrival workers)),
                   slots_written = map (\<lambda>m. idx (snd m)) (take k (detailsChan E arrival workers)),
                   finished_at = fin\<rparr>, w1)"
    using assms k(3) by (simp add: makeStorageResp_def)
  with r0 ws k(1,2,4) show ?thesis by auto
qed

lemma makeStorageResp_Some:
  "\<exists>res w1. makeStorageResp E c arrival storages w = (Some res, w1)
       \<and> map Storage (responses res) = map (tenant_view c) storages"
proof -
  obtain resps0 workers w1 where d: "dispatch E c 0 storages [] [] w = ((resps0, workers), w1)"
    by (metis surj_pair)
  from makeStorageResp_closed_form[OF d, of arrival] show ?thesis
    by (auto simp: comp_def)
qed

lemma find_Some_mem: "find P xs = Some x \<Longrightarrow> x \<in> set xs \<and> P x"
  by (induction xs) (auto split: if_splits)

lemma slot_driver:
  assumes "distinct (map snd workers)" and "(dri, i) \<in> set workers"
  shows "map_of (map (\<lambda>(d, j). (j, d)) workers) i = Some dri"
proof -
  have "map fst (map (\<lambda>(d, j). (j, d)) workers) = map snd workers"
    by (induction workers) auto
  with assms(1) have "distinct (map fst (map (\<lambda>(d, j). (j, d)) workers))"
    by (simp only:)
  moreover have "(i, dri) \<in> set (map (\<lambda>(d, j). (j, d)) workers)"
    using assms(2) by force
  ultimately show ?thesis by simp
qed

text \<open>
  C8. For a batch of \<open>N\<close> records \<^verbatim>\<open>makeStorageResp\<close> returns (it does not panic, and a
  fetch error has no way to fail it) \<open>N\<close> responses, the views of the records in input
  order. No slot is assigned twice. A slot that was assigned holds what the worker
  started for that very record fetched, so it is nil when that fetch returned nil
  details, as a fetch of the op layer does whenever it returns an error; a slot that was
  not assigned is nil. A slot is assigned only if a worker was
  started for it and that worker reported; a worker is started for record \<open>i\<close> only if
  details were not hidden, the path resolved to a driver and the driver has the details
  capability. When the flag hides details, no worker is started and no call is made at
  all.
\<close>

theorem C8_aggregation_slots:
  assumes "dispatch E c 0 storages [] [] w = ((resps0, workers), w1)"
  shows "\<exists>res. makeStorageResp E c arrival storages w = (Some res, w1)
     \<and> length (responses res) = length storages
     \<and> map Storage (responses res) = map (tenant_view c) storages
     \<and> distinct (slots_written res)
     \<and> (\<forall>i < length storages.
           MountDetails (responses res ! i) =
             (if i \<in> set (slots_written res) then
                (case map_of (map (\<lambda>(d, j). (j, d)) workers) i of
                   None \<Rightarrow> None
                 | Some dri \<Rightarrow> fst (op_GetStorageDetails E dri))
              else None))
     \<and> ((\<forall>d. snd (op_GetStorageDetails E d) \<noteq> None \<longrightarrow> fst (op_GetStorageDetails E d) = None)
          \<longrightarrow> (\<forall>(dri, i) \<in> set workers.
                 snd (op_GetStorageDetails E dri) \<noteq> None \<longrightarrow> MountDetails (responses res ! i) = None))
     \<and> (\<forall>i \<in> set (slots_written res). arrival i \<noteq> None \<and> i \<in> snd ` set workers)
     \<and> (\<forall>(dri, i) \<in> set workers.
           i < length storages \<and> WithDetails dri
           \<and> (\<exists>s. \<not> HideStorageDetailsInManagePage E s
                  \<and> fst (op_GetStorageByMountPath E (MountPath (tenant_view c (storages ! i))) s)
                      = Inr dri))
     \<and> ((\<forall>s. HideStorageDetailsInManagePage E s) \<longrightarrow> workers = [] \<and> w1 = w)"
proof -
  let ?chan = "detailsChan E arrival workers"
  from makeStorageResp_closed_form[OF assms, of arrival]
  obtain k fin where
    r0: "resps0 = map (\<lambda>s. \<lparr>Storage = tenant_view c s, MountDetails = None\<rparr>) storages"
    and srt: "sorted_wrt (<) (map snd workers)"
    and ws: "\<forall>(dri, j) \<in> set workers. j < length storages \<and> WithDetails dri
              \<and> (\<exists>s. \<not> HideStorageDetailsInManagePage E s
                     \<and> fst (op_GetStorageByMountPath E (MountPath (tenant_view c (storages ! j))) s)
                         = Inr dri)"
    and res: "makeStorageResp E c arrival storages w
                = (Some \<lparr>responses = foldl assign resps0 (take k ?chan),
                         slots_written = map (\<lambda>m. idx (snd m)) (take k ?chan),
                         finished_at = fin\<rparr>, w1)"
    by blast
  let ?res = "\<lparr>responses = foldl assign resps0 (take k ?chan),
               slots_written = map (\<lambda>m. idx (snd m)) (take k ?chan),
               finished_at = fin\<rparr>"
  have dw: "distinct (map snd workers)"
    using srt by (simp add: strict_sorted_iff)
  have dc: "distinct (map (\<lambda>m. idx (snd m)) (take k ?chan))"
    using detailsChan_distinct[OF dw, of E arrival] by (simp add: take_map[symmetric])
  have len: "length (responses ?res) = length storages"
    by (simp add: r0)
  have sto: "map Storage (responses ?res) = map (tenant_view c) storages"
    by (simp add: r0 comp_def)
  have slots: "\<forall>i < length storages.
           MountDetails (responses ?res ! i) =
             (if i \<in> set (slots_written ?res) then
                (case map_of (map (\<lambda>(d, j). (j, d)) workers) i of
                   None \<Rightarrow> None
                 | Some dri \<Rightarrow> fst (op_GetStorageDetails E dri))
              else None)"
  proof (intro allI impI)
    fix i assume i: "i < length storages"
    then have i0: "i < length resps0" by (simp add: r0)
    have none: "MountDetails (resps0 ! i) = None" using i by (simp add: r0)
    show "MountDetails (responses ?res ! i) =
             (if i \<in> set (slots_written ?res) then
                (case map_of (map (\<lambda>(d, j). (j, d)) workers) i of
                   None \<Rightarrow> None
                 | Some dri \<Rightarrow> fst (op_GetStorageDetails E dri))
              else None)"
    proof (cases "find (\<lambda>m. idx (snd m) = i) (take k ?chan)")
      case None
      then have "i \<notin> set (slots_written ?res)"
        by (force simp: find_None_iff)
      then show ?thesis using nth_foldl_assign[OF dc i0] None none by simp
    next
      case (Some m)
      then have m: "m \<in> set (take k ?chan)" "idx (snd m) = i"
        by (auto dest: find_Some_mem)
      then have inw: "i \<in> set (slots_written ?res)" by force
      from m(1) have "m \<in> set ?chan" by (rule in_set_takeD)
      from detailsChan_members[OF this] m(2) obtain dri where
        dri: "(dri, i) \<in> set workers" "val (snd m) = fst (op_GetStorageDetails E dri)"
        by blast
      show ?thesis
        using nth_foldl_assign[OF dc i0] Some inw slot_driver[OF dw dri(1)] dri(2) by simp
    qed
  qed
  have failed_slot: "MountDetails (responses ?res ! i) = None"
    if conv: "\<forall>d. snd (op_GetStorageDetails E d) \<noteq> None \<longrightarrow> fst (op_GetStorageDetails E d) = None"
      and mem: "(dri, i) \<in> set workers" and er: "snd (op_GetStorageDetails E dri) \<noteq> None"
    for dri i
  proof -
    from mem ws have "i < length storages" by auto
    with slots have "MountDetails (responses ?res ! i) =
             (if i \<in> set (slots_written ?res) then
                (case map_of (map (\<lambda>(d, j). (j, d)) workers) i of
                   None \<Rightarrow> None
                 | Some dri \<Rightarrow> fst (op_GetStorageDetails E dri))
              else None)"
      by blast
    then show "MountDetails (responses ?res ! i) = None"
      using slot_driver[OF dw mem] conv er by (simp split: if_splits)
  qed
  then have failed: "(\<forall>d. snd (op_GetStorageDetails E d) \<noteq> None \<longrightarrow> fst (op_GetStorageDetails E d) = None)
          \<longrightarrow> (\<forall>(dri, i) \<in> set workers.
                 snd (op_GetStorageDetails E dri) \<noteq> None \<longrightarrow> MountDetails (responses ?res ! i) = None)"
    by blast
  have rep: "\<forall>i \<in> set (slots_written ?res). arrival i \<noteq> None \<and> i \<in> snd ` set workers"
  proof
    fix i assume "i \<in> set (slots_written ?res)"
    then obtain m where m: "m \<in> set (take k ?chan)" "idx (snd m) = i" by auto
    from m(1) have "m \<in> set ?chan" by (rule in_set_takeD)
    from detailsChan_members[OF this] m(2)
    show "arrival i \<noteq> None \<and> i \<in> snd ` set workers" by force
  qed
  have hid: "(\<forall>s. HideStorageDetailsInManagePage E s) \<longrightarrow> workers = [] \<and> w1 = w"
    using dispatch_hidden[of E c 0 storages "[]" "[]" w] assms by auto
  show ?thesis
    apply (rule exI[of _ ?res])
    using res len sto dc slots failed rep ws hid by simp
qed

lemma batch_dispatch:
  "dispatch mem_env (Some admin) 0 batch [] [] batch_world
     = ((map (\<lambda>s. \<lparr>Storage = s, MountDetails = None\<rparr>) batch,
         [(\<lparr>driver_GetStorage = batch ! 0, WithDetails = True\<rparr>, 0),
          (\<lparr>driver_GetStorage = batch ! 2, WithDetails = True\<rparr>, 2),
          (\<lparr>driver_GetStorage = batch ! 3, WithDetails = True\<rparr>, 3),
          (\<lparr>driver_GetStorage = batch ! 4, WithDetails = True\<rparr>, 4)]),
        batch_world\<lparr>calls := map (\<lambda>s. OpGetStorageByMountPath (MountPath s)) batch\<rparr>)"
  by (simp add: batch_def batch_world_def mem_env_def mk_storage_def admin_def tenant_view_def
        invoke_def record_call_def Let_def)

lemma batch_chan:
  "detailsChan mem_env batch_arrival
         [(\<lparr>driver_GetStorage = batch ! 0, WithDetails = True\<rparr>, 0),
          (\<lparr>driver_GetStorage = batch ! 2, WithDetails = True\<rparr>, 2),
          (\<lparr>driver_GetStorage = batch ! 3, WithDetails = True\<rparr>, 3),
          (\<lparr>driver_GetStorage = batch ! 4, WithDetails = True\<rparr>, 4)]
     = [(1000000000, \<lparr>idx = 0, val = Some \<lparr>TotalSpace = 100, FreeSpace = 1\<rparr>\<rparr>),
        (1500000000, \<lparr>idx = 2, val = None\<rparr>),
        (2000000000, \<lparr>idx = 4, val = Some \<lparr>TotalSpace = 100, FreeSpace = 5\<rparr>\<rparr>)]"
  by (simp add: detailsChan_def batch_arrival_def worker_def mem_env_def batch_def mk_storage_def)

lemma batch_result:
  "makeStorageResp mem_env (Some admin) batch_arrival batch batch_world
     = (Some \<lparr>responses =
               [\<lparr>Storage = batch ! 0, MountDetails = Some \<lparr>TotalSpace = 100, FreeSpace = 1\<rparr>\<rparr>,
                \<lparr>Storage = batch ! 1, MountDetails = None\<rparr>,
                \<lparr>Storage = batch ! 2, MountDetails = None\<rparr>,
                \<lparr>Storage = batch ! 3, MountDetails = None\<rparr>,
                \<lparr>Storage = batch ! 4, MountDetails = Some \<lparr>TotalSpace = 100, FreeSpace = 5\<rparr>\<rparr>,
                \<lparr>Storage = batch ! 5, MountDetails = None\<rparr>],
              slots_written = [0, 2, 4],
              finished_at = 5000000000\<rparr>,
        batch_world\<lparr>calls := map (\<lambda>s. OpGetStorageByMountPath (MountPath s)) batch\<rparr>)"
  unfolding makeStorageResp_def batch_dispatch
  apply (simp add: batch_chan del: collect.simps)
  apply (subst collect.simps, simp add: time_Second_def del: collect.simps)+
  apply (simp add: batch_def)
  done

lemma tenant_view_admin: "IsAdmin u \<Longrightarrow> tenant_view (Some u) = (\<lambda>s. s)"
  by (rule ext) (simp add: tenant_view_def)

text \<open>
  On the batch of six records, seen by an admin: six responses in input order, slots 0, 2
  and 4 assigned once each, slot 2 nil because its fetch failed, slots 1, 3 and 5 nil
  because no worker was started or the worker never reported.
\<close>

theorem C8_aggregation_slots_witness:
  "\<exists>res. makeStorageResp mem_env (Some admin) batch_arrival batch batch_world
            = (Some res,
               batch_world\<lparr>calls := map (\<lambda>s. OpGetStorageByMountPath (MountPath s)) batch\<rparr>)
      \<and> length (responses res) = 6
      \<and> map Storage (responses res) = batch
      \<and> distinct (slots_written res)
      \<and> slots_written res = [0, 2, 4]
      \<and> map MountDetails (responses res)
          = [Some \<lparr>TotalSpace = 100, FreeSpace = 1\<rparr>, None, None, None,
             Some \<lparr>TotalSpace = 100, FreeSpace = 5\<rparr>, None]"
proof -
  from C8_aggregation_slots[OF batch_dispatch, of batch_arrival]
  obtain res where res:
    "makeStorageResp mem_env (Some admin) batch_arrival batch batch_world
       = (Some res, batch_world\<lparr>calls := map (\<lambda>s. OpGetStorageByMountPath (MountPath s)) batch\<rparr>)"
    "length (responses res) = length batch"
    "map Storage (responses res) = map (tenant_view (Some admin)) batch"
    "distinct (slots_written res)"
    by blast
  have v: "map (tenant_view (Some admin)) batch = batch"
    by (simp add: tenant_view_admin admin_def)
  from res(1) batch_result have
    "slots_written res = [0, 2, 4]"
    "map MountDetails (responses res)
          = [Some \<lparr>TotalSpace = 100, FreeSpace = 1\<rparr>, None, None, None,
             Some \<lparr>TotalSpace = 100, FreeSpace = 5\<rparr>, None]"
    by auto
  with res v show ?thesis by (auto simp: batch_def)
qed

subsection \<open>List\<close>

text \<open>
  C3. When the store returns a page and its total, ListStorages answers with the views
  of exactly those records of the page whose \<open>MountPath\<close> has the caller's \<open>BasePath\<close> as a
  prefix, in the page's order, for a non-admin caller, and with the whole page,
  unchanged, for an admin. The total of the answer is the store's total, whatever was
  filtered: the number of records returned is at most the page's length and can be
  smaller than the total.
\<close>

theorem C3_list_filtered:
  assumes "db_GetStorages E (Page (PageReq_Validate E req)) (PerPage (PageReq_Validate E req))
             (store w) = (Inr (storages, total_count), s1)"
  shows "\<exists>content w2.
           ListStorages E (Some u) (Inr req) arrival w
             = (SuccessResp (PageResp content total_count), w2)
         \<and> map Storage content
             = (if IsAdmin u then storages
                else map (tenant_view (Some u))
                       (filter (\<lambda>s. strings_HasPrefix (MountPath s) (BasePath u)) storages))
         \<and> length content \<le> length storages"
proof -
  let ?req = "PageReq_Validate E req"
  let ?w1 = "w\<lparr>store := s1, calls := calls w @ [DbGetStorages (Page ?req) (PerPage ?req)]\<rparr>"
  let ?fs = "filterStorages (Some u) storages"
  have inv: "invoke (DbGetStorages (Page ?req) (PerPage ?req))
               (db_GetStorages E (Page ?req) (PerPage ?req)) w = (Inr (storages, total_count), ?w1)"
    using assms by (rule invoke_eq)
  from makeStorageResp_Some[of E "Some u" arrival ?fs ?w1]
  obtain res w2 where res: "makeStorageResp E (Some u) arrival ?fs ?w1 = (Some res, w2)"
    "map Storage (responses res) = map (tenant_view (Some u)) ?fs"
    by blast
  have l: "ListStorages E (Some u) (Inr req) arrival w
             = (SuccessResp (PageResp (responses res) total_count), w2)"
    using inv res(1) by (simp add: ListStorages_def Let_def)
  have a: "IsAdmin u \<Longrightarrow> map (tenant_view (Some u)) storages = storages"
    by (simp add: tenant_view_admin)
  have m: "map Storage (responses res)
             = (if IsAdmin u then storages
                else map (tenant_view (Some u))
                       (filter (\<lambda>s. strings_HasPrefix (MountPath s) (BasePath u)) storages))"
    using res(2) a by (simp add: filterStorages_def)
  have "length (map Storage (responses res)) \<le> length storages"
    unfolding m by simp
  then have "length (responses res) \<le> length storages" by simp
  with l m show ?thesis by blast
qed

text \<open>
  The tenant of \<open>/u1\<close> listing the in-memory store of two records gets one record, shown
  as \<open>/drive\<close>, with the total 2.
\<close>

theorem C3_list_filtered_witness:
  "\<exists>content w2.
     ListStorages mem_env (Some tenant) (Inr \<lparr>Page = 1, PerPage = 30\<rparr>) (\<lambda>i. None) mem_world
       = (SuccessResp (PageResp content 2), w2)
     \<and> map Storage content = [mk_storage 1 ''/drive'']
     \<and> length content < 2"
proof -
  have g: "db_GetStorages mem_env (Page (PageReq_Validate mem_env \<lparr>Page = 1, PerPage = 30\<rparr>))
             (PerPage (PageReq_Validate mem_env \<lparr>Page = 1, PerPage = 30\<rparr>)) (store mem_world)
           = (Inr ([mk_storage 1 ''/u1/drive'', mk_storage 2 ''/u2/x''], 2), store mem_world)"
    by (simp add: mem_env_def mem_world_def)
  have p: "strings_HasPrefix ''/u1/drive'' ''/u1''" "\<not> strings_HasPrefix ''/u2/x'' ''/u1''"
    by (simp_all add: strings_HasPrefix_def)
  have v: "tenant_view (Some tenant) (mk_storage 1 ''/u1/drive'') = mk_storage 1 ''/drive''"
    using p by (simp add: tenant_view_def tenant_def mk_storage_def ToRelative_def
        strings_TrimPrefix_def)
  from C3_list_filtered[OF g, of tenant "\<lambda>i. None"] obtain content w2 where
    "ListStorages mem_env (Some tenant) (Inr \<lparr>Page = 1, PerPage = 30\<rparr>) (\<lambda>i. None) mem_world
       = (SuccessResp (PageResp content 2), w2)"
    "map Storage content
       = map (tenant_view (Some tenant))
           (filter (\<lambda>s. strings_HasPrefix (MountPath s) (BasePath tenant))
              [mk_storage 1 ''/u1/drive'', mk_storage 2 ''/u2/x''])"
    using tenant_not_admin by auto
  moreover from this(2) have "map Storage content = [mk_storage 1 ''/drive'']"
    using p v by (simp add: tenant_def mk_storage_def)
  moreover from this have "length content = 1"
    by (metis length_map length_Cons list.size(3) One_nat_def)
  ultimately show ?thesis by auto
qed

subsection \<open>Reload\<close>

lemma reload_one_calls:
  "\<exists>evs. calls (reload_one E s v) = calls v @ OpGetStorageByMountPath (MountPath s) # evs
         \<and> resolved_paths evs = []
         \<and> SendStoragesLoadedSignal \<notin> set evs \<and> ResetStoragesLoadSignal \<notin> set evs
         \<and> signal (reload_one E s v) = signal v"
  by (auto simp: reload_one_def invoke_def record_call_def Let_def
      split: prod.splits sum.splits option.splits)

lemma resolved_paths_append [simp]:
  "resolved_paths (xs @ ys) = resolved_paths xs @ resolved_paths ys"
  by (induction xs rule: resolved_paths.induct) simp_all

lemma reload_loop_calls:
  "\<exists>body. calls (reload_loop E ss v) = calls v @ body
         \<and> resolved_paths body = map MountPath ss
         \<and> SendStoragesLoadedSignal \<notin> set body \<and> ResetStoragesLoadSignal \<notin> set body
         \<and> signal (reload_loop E ss v) = signal v"
proof (induction ss arbitrary: v)
  case Nil
  then show ?case by simp
next
  case (Cons s ss)
  from reload_one_calls[of E s v] obtain evs where
    e: "calls (reload_one E s v) = calls v @ OpGetStorageByMountPath (MountPath s) # evs"
      "resolved_paths evs = []"
      "SendStoragesLoadedSignal \<notin> set evs" "ResetStoragesLoadSignal \<notin> set evs"
      "signal (reload_one E s v) = signal v"
    by blast
  from Cons.IH[of "reload_one E s v"] obtain body where
    b: "calls (reload_loop E ss (reload_one E s v)) = calls (reload_one E s v) @ body"
      "resolved_paths body = map MountPath ss"
      "SendStoragesLoadedSignal \<notin> set body" "ResetStoragesLoadSignal \<notin> set body"
      "signal (reload_loop E ss (reload_one E s v)) = signal (reload_one E s v)"
    by blast
  show ?case
    by (rule exI[of _ "OpGetStorageByMountPath (MountPath s) # evs @ body"])
       (use e b in simp)
qed

text \<open>
  C9. When reading the enabled storages fails, LoadAllStorages answers 500 with the
  store's error, starts no task and leaves the signal as it was. Otherwise it resets
  the signal (to \<open>Loading\<close>) and answers success, having started the reload task; the
  world at the time of the answer holds the read and the reset and nothing else. The
  task, from whatever state \<open>v\<close> it is run, asks for the driver of every storage of the
  snapshot, in the snapshot's order, whatever failed in between, sends the loaded
  signal once, as its last action, and leaves the signal \<open>Loaded\<close>. One pass of its
  loop stops at the first step that fails (resolve, drop, re-init) with an error log
  entry, and the loop goes on with the next storage in every case.
\<close>

theorem C9_reload:
  "(case db_GetEnabledStorages E (store w) of
      (Inl e, s1) \<Rightarrow>
        LoadAllStorages E w =
          (ErrorResp e 500, None,
           w\<lparr>store := s1,
             calls := calls w @ [DbGetEnabledStorages,
                                 LogErrorf ''failed get enabled storages: %+v'']\<rparr>)
    | (Inr storages, s1) \<Rightarrow>
        (\<exists>task.
           LoadAllStorages E w =
             (SuccessResp NoData, Some task,
              w\<lparr>store := s1, signal := Loading,
                calls := calls w @ [DbGetEnabledStorages, ResetStoragesLoadSignal]\<rparr>)
         \<and> (\<forall>v. \<exists>body.
                calls (task v) = calls v @ body @ [SendStoragesLoadedSignal]
              \<and> resolved_paths body = map MountPath storages
              \<and> SendStoragesLoadedSignal \<notin> set body \<and> ResetStoragesLoadSignal \<notin> set body
              \<and> signal (task v) = Loaded)))
   \<and> (\<forall>s rest v. reload_loop E (s # rest) v = reload_loop E rest (reload_one E s v))
   \<and> (\<forall>s v.
         let resolve = OpGetStorageByMountPath (MountPath s)
         in case op_GetStorageByMountPath E (MountPath s) (store v) of
              (Inl e, s1) \<Rightarrow>
                reload_one E s v =
                  v\<lparr>store := s1,
                    calls := calls v @ [resolve, LogErrorf ''failed get storage driver: %+v'']\<rparr>
            | (Inr d, s1) \<Rightarrow>
                (case Drop E d s1 of
                   (Some e, s2) \<Rightarrow>
                     reload_one E s v =
                       v\<lparr>store := s2,
                         calls := calls v @ [resolve, DriverDrop d,
                                             LogErrorf ''failed drop storage: %+v'']\<rparr>
                 | (None, s2) \<Rightarrow>
                     (case op_LoadStorage E s s2 of
                        (Some e, s3) \<Rightarrow>
                          reload_one E s v =
                            v\<lparr>store := s3,
                              calls := calls v @ [resolve, DriverDrop d, OpLoadStorage s,
                                                  LogErrorf ''failed get enabled storages: %+v'']\<rparr>
                      | (None, s3) \<Rightarrow>
                          reload_one E s v =
                            v\<lparr>store := s3,
                              calls := calls v @ [resolve, DriverDrop d, OpLoadStorage s,
                                 LogInfof ''success load storage: [%s], driver: [%s]'']\<rparr>)))"
proof (intro conjI)
  show "case db_GetEnabledStorages E (store w) of
      (Inl e, s1) \<Rightarrow>
        LoadAllStorages E w =
          (ErrorResp e 500, None,
           w\<lparr>store := s1,
             calls := calls w @ [DbGetEnabledStorages,
                                 LogErrorf ''failed get enabled storages: %+v'']\<rparr>)
    | (Inr storages, s1) \<Rightarrow>
        (\<exists>task.
           LoadAllStorages E w =
             (SuccessResp NoData, Some task,
              w\<lparr>store := s1, signal := Loading,
                calls := calls w @ [DbGetEnabledStorages, ResetStoragesLoadSignal]\<rparr>)
         \<and> (\<forall>v. \<exists>body.
                calls (task v) = calls v @ body @ [SendStoragesLoadedSignal]
              \<and> resolved_paths body = map MountPath storages
              \<and> SendStoragesLoadedSignal \<notin> set body \<and> ResetStoragesLoadSignal \<notin> set body
              \<and> signal (task v) = Loaded))"
  proof (cases "db_GetEnabledStorages E (store w)")
    case (Pair r s1)
    show ?thesis
    proof (cases r)
      case (Inl e)
      then show ?thesis using Pair
        by (simp add: LoadAllStorages_def invoke_def record_call_def)
    next
      case (Inr storages)
      have t: "\<forall>v. \<exists>body.
                calls (reload_task E storages v) = calls v @ body @ [SendStoragesLoadedSignal]
              \<and> resolved_paths body = map MountPath storages
              \<and> SendStoragesLoadedSignal \<notin> set body \<and> ResetStoragesLoadSignal \<notin> set body
              \<and> signal (reload_task E storages v) = Loaded"
      proof
        fix v
        from reload_loop_calls[of E storages v] obtain body where
          "calls (reload_loop E storages v) = calls v @ body"
          "resolved_paths body = map MountPath storages"
          "SendStoragesLoadedSignal \<notin> set body" "ResetStoragesLoadSignal \<notin> set body"
          by blast
        then show "\<exists>body.
                calls (reload_task E storages v) = calls v @ body @ [SendStoragesLoadedSignal]
              \<and> resolved_paths body = map MountPath storages
              \<and> SendStoragesLoadedSignal \<notin> set body \<and> ResetStoragesLoadSignal \<notin> set body
              \<and> signal (reload_task E storages v) = Loaded"
          by (intro exI[of _ body])
             (simp add: reload_task_def conf_SendStoragesLoadedSignal_def record_call_def)
      qed
      have "LoadAllStorages E w =
             (SuccessResp NoData, Some (reload_task E storages),
              w\<lparr>store := s1, signal := Loading,
                calls := calls w @ [DbGetEnabledStorages, ResetStoragesLoadSignal]\<rparr>)"
        using Pair Inr
        by (simp add: LoadAllStorages_def invoke_def record_call_def
              conf_ResetStoragesLoadSignal_def)
      with t show ?thesis using Pair Inr by auto
    qed
  qed
next
  show "\<forall>s rest v. reload_loop E (s # rest) v = reload_loop E rest (reload_one E s v)"
    by simp
next
  show "\<forall>s v.
         let resolve = OpGetStorageByMountPath (MountPath s)
         in case op_GetStorageByMountPath E (MountPath s) (store v) of
              (Inl e, s1) \<Rightarrow>
                reload_one E s v =
                  v\<lparr>store := s1,
                    calls := calls v @ [resolve, LogErrorf ''failed get storage driver: %+v'']\<rparr>
            | (Inr d, s1) \<Rightarrow>
                (case Drop E d s1 of
                   (Some e, s2) \<Rightarrow>
                     reload_one E s v =
                       v\<lparr>store := s2,
                         calls := calls v @ [resolve, DriverDrop d,
                                             LogErrorf ''failed drop storage: %+v'']\<rparr>
                 | (None, s2) \<Rightarrow>
                     (case op_LoadStorage E s s2 of
                        (Some e, s3) \<Rightarrow>
                          reload_one E s v =
                            v\<lparr>store := s3,
                              calls := calls v @ [resolve, DriverDrop d, OpLoadStorage s,
                                                  LogErrorf ''failed get enabled storages: %+v'']\<rparr>
                      | (None, s3) \<Rightarrow>
                          reload_one E s v =
                            v\<lparr>store := s3,
                              calls := calls v @ [resolve, DriverDrop d, OpLoadStorage s,
                                 LogInfof ''success load storage: [%s], driver: [%s]'']\<rparr>))"
    by (simp add: reload_one_def invoke_def record_call_def Let_def
          split: prod.splits sum.splits option.splits)
qed

lemma five_enabled: "db_GetEnabledStorages mem_env (store five_world) = (Inr five, five)"
  by (simp add: mem_env_def five_world_def five_def mk_storage_def)

lemma five_task:
  "reload_task mem_env five (five_world\<lparr>signal := Loading\<rparr>)
     = \<lparr>store = five, signal = Loaded,
        calls =
          [OpGetStorageByMountPath ''/s1'',
           DriverDrop \<lparr>driver_GetStorage = five ! 0, WithDetails = True\<rparr>,
           OpLoadStorage (five ! 0), LogInfof ''success load storage: [%s], driver: [%s]'',
           OpGetStorageByMountPath ''/s2'',
           DriverDrop \<lparr>driver_GetStorage = five ! 1, WithDetails = True\<rparr>,
           OpLoadStorage (five ! 1), LogInfof ''success load storage: [%s], driver: [%s]'',
           OpGetStorageByMountPath ''/s3'',
           DriverDrop \<lparr>driver_GetStorage = five ! 2, WithDetails = True\<rparr>,
           LogErrorf ''failed drop storage: %+v'',
           OpGetStorageByMountPath ''/s4'',
           DriverDrop \<lparr>driver_GetStorage = five ! 3, WithDetails = True\<rparr>,
           OpLoadStorage (five ! 3), LogInfof ''success load storage: [%s], driver: [%s]'',
           OpGetStorageByMountPath ''/s5'',
           DriverDrop \<lparr>driver_GetStorage = five ! 4, WithDetails = True\<rparr>,
           OpLoadStorage (five ! 4), LogInfof ''success load storage: [%s], driver: [%s]'',
           SendStoragesLoadedSignal]\<rparr>"
  by (simp add: reload_task_def reload_one_def invoke_def record_call_def Let_def
        conf_SendStoragesLoadedSignal_def mem_env_def five_world_def five_def mk_storage_def)

text \<open>
  Reload over five enabled storages where the drop of the third fails: storages 1, 2, 4
  and 5 are re-initialised, all five are attempted in order, and the signal ends
  \<open>Loaded\<close>.
\<close>

theorem C9_reload_witness:
  "\<exists>task.
     LoadAllStorages mem_env five_world =
       (SuccessResp NoData, Some task,
        five_world\<lparr>signal := Loading, calls := [DbGetEnabledStorages, ResetStoragesLoadSignal]\<rparr>)
   \<and> resolved_paths (calls (task (five_world\<lparr>signal := Loading\<rparr>))) = map MountPath five
   \<and> reinitialised (calls (task (five_world\<lparr>signal := Loading\<rparr>)))
        = [five ! 0, five ! 1, five ! 3, five ! 4]
   \<and> last (calls (task (five_world\<lparr>signal := Loading\<rparr>))) = SendStoragesLoadedSignal
   \<and> signal (task (five_world\<lparr>signal := Loading\<rparr>)) = Loaded"
proof -
  from C9_reload[of mem_env five_world] five_enabled obtain task where
    t: "LoadAllStorages mem_env five_world =
          (SuccessResp NoData, Some task,
           five_world\<lparr>store := five, signal := Loading,
             calls := calls five_world @ [DbGetEnabledStorages, ResetStoragesLoadSignal]\<rparr>)"
    and b: "\<forall>v. \<exists>body.
                calls (task v) = calls v @ body @ [SendStoragesLoadedSignal]
              \<and> resolved_paths body = map MountPath five
              \<and> SendStoragesLoadedSignal \<notin> set body \<and> ResetStoragesLoadSignal \<notin> set body
              \<and> signal (task v) = Loaded"
    by auto
  have w: "five_world\<lparr>store := five, signal := Loading,
             calls := calls five_world @ [DbGetEnabledStorages, ResetStoragesLoadSignal]\<rparr>
           = five_world\<lparr>signal := Loading, calls := [DbGetEnabledStorages, ResetStoragesLoadSignal]\<rparr>"
    by (simp add: five_world_def)
  have task: "task = reload_task mem_env five"
    using t five_enabled by (simp add: LoadAllStorages_def invoke_def)
  from b obtain body where
    "calls (task (five_world\<lparr>signal := Loading\<rparr>))
       = calls (five_world\<lparr>signal := Loading\<rparr>) @ body @ [SendStoragesLoadedSignal]"
    "resolved_paths body = map MountPath five"
    "signal (task (five_world\<lparr>signal := Loading\<rparr>)) = Loaded"
    by blast
  then have g: "resolved_paths (calls (task (five_world\<lparr>signal := Loading\<rparr>))) = map MountPath five"
    "last (calls (task (five_world\<lparr>signal := Loading\<rparr>))) = SendStoragesLoadedSignal"
    "signal (task (five_world\<lparr>signal := Loading\<rparr>)) = Loaded"
    by (simp_all add: five_world_def)
  have r: "reinitialised (calls (task (five_world\<lparr>signal := Loading\<rparr>)))
        = [five ! 0, five ! 1, five ! 3, five ! 4]"
    unfolding task five_task by simp
  from t w g r show ?thesis by auto
qed

subsection \<open>The time the collection loop takes\<close>

text \<open>
  C2, as the spec states it, fails: the loop does not stop within one 3-second budget
  counted from the start of the batch. On the batch of six records the workers for
  slots 0, 2 and 4 report after 1 s, 1.5 s and 2 s, and the worker for slot 3 never
  reports: the pass that waits for it starts its own timer at 2 s, so the loop ends
  5 s after its start.
\<close>

theorem C2_shared_deadline_counterexample:
  "map_option finished_at
       (fst (makeStorageResp mem_env (Some admin) batch_arrival batch batch_world))
     = Some 5000000000
   \<and> time_Second * 3 < 5000000000"
  by (simp add: batch_result time_Second_def)

lemma workers_bounded:
  assumes "sorted_wrt (<) (map snd workers)" and "\<forall>(dri, j) \<in> set workers. j < n"
  shows "length workers \<le> n"
proof -
  have "distinct (map snd workers)" using assms(1) by (simp add: strict_sorted_iff)
  then have "length workers = card (set (map snd workers))"
    by (metis distinct_card length_map)
  also have "\<dots> \<le> card {..<n}"
    using assms(2) by (intro card_mono) auto
  finally show ?thesis by simp
qed

text \<open>
  C2, amended. The collection loop terminates: every pass lowers \<^verbatim>\<open>workerCount\<close>, which
  is the measure of the termination proof of \<open>collect\<close>. Every pass waits at most 3
  seconds, on a timer of its own, so the loop ends within 3 seconds times the number of
  started workers (at most the number of records) from its start, however many workers
  never report; when none of them ever reports it ends after exactly 3 seconds, and at
  once when no worker was started. The deadline restarts at each completion; it is not
  shared across the batch.
\<close>

theorem C2_deadline_per_pass:
  assumes "dispatch E c 0 storages [] [] w = ((resps0, workers), w1)"
  shows "\<exists>res. makeStorageResp E c arrival storages w = (Some res, w1)
           \<and> finished_at res \<le> length workers * (time_Second * 3)
           \<and> length workers \<le> length storages
           \<and> length (slots_written res) \<le> length workers
           \<and> ((\<forall>i. arrival i = None) \<longrightarrow>
                 finished_at res = (if workers = [] then 0 else time_Second * 3))"
proof -
  from makeStorageResp_closed_form[OF assms, of arrival]
  obtain k fin where
    srt: "sorted_wrt (<) (map snd workers)"
    and ws: "\<forall>(dri, j) \<in> set workers. j < length storages"
    and k: "k \<le> length workers" "fin \<le> length workers * (time_Second * 3)"
    and res: "makeStorageResp E c arrival storages w
                = (Some \<lparr>responses = foldl assign resps0 (take k (detailsChan E arrival workers)),
                         slots_written = map (\<lambda>m. idx (snd m)) (take k (detailsChan E arrival workers)),
                         finished_at = fin\<rparr>, w1)"
    by fastforce
  have silent: "fin = (if workers = [] then 0 else time_Second * 3)" if "\<forall>i. arrival i = None"
  proof -
    have "detailsChan E arrival workers = []"
      using that by (simp add: detailsChan_def List.map_filter_def)
    then have "collect (length workers) (detailsChan E arrival workers) resps0 [] 0
                = Some \<lparr>responses = resps0, slots_written = [],
                        finished_at = (if workers = [] then 0 else time_Second * 3)\<rparr>"
      by (subst collect.simps) (simp add: collect_zero)
    with res assms show ?thesis by (simp add: makeStorageResp_def)
  qed
  show ?thesis
    using res k workers_bounded[OF srt ws] silent by auto
qed

text \<open>
  On the batch of six records four workers are started: the loop ends after 5 s, within
  4 times 3 s, having assigned three slots.
\<close>

theorem C2_deadline_per_pass_witness:
  "\<exists>res. makeStorageResp mem_env (Some admin) batch_arrival batch batch_world
            = (Some res,
               batch_world\<lparr>calls := map (\<lambda>s. OpGetStorageByMountPath (MountPath s)) batch\<rparr>)
         \<and> finished_at res = 5000000000
         \<and> finished_at res \<le> 4 * (time_Second * 3)
         \<and> length (slots_written res) \<le> 4"
proof -
  from C2_deadline_per_pass[OF batch_dispatch, of batch_arrival] obtain res where
    "makeStorageResp mem_env (Some admin) batch_arrival batch batch_world
            = (Some res,
               batch_world\<lparr>calls := map (\<lambda>s. OpGetStorageByMountPath (MountPath s)) batch\<rparr>)"
    "finished_at res \<le> 4 * (time_Second * 3)" "length (slots_written res) \<le> 4"
    by auto
  moreover from this(1) batch_result have "finished_at res = 5000000000" by auto
  ultimately show ?thesis by blast
qed

subsection \<open>Path scope is a string prefix\<close>

lemma HasPrefix_iff: "strings_HasPrefix s pre \<longleftrightarrow> (\<exists>t. s = pre @ t)"
  unfolding strings_HasPrefix_def
  by (metis append_eq_conv_conj append_take_drop_id le_add1 length_append)

text \<open>
  C1, as the spec states it, fails: the handlers treat \<open>/abcd\<close> as under the root \<open>/ab\<close>,
  which it is not segment by segment. The tenant of \<open>/ab\<close> lists the record mounted at
  \<open>/abcd\<close>, reads it (shown as \<open>cd\<close>), and deletes it.
\<close>

theorem C1_segment_exact_counterexample:
  "\<not> IsUnderRoot_spec ''/abcd'' ''/ab''
   \<and> strings_HasPrefix ''/abcd'' ''/ab''
   \<and> filterStorages (Some tenant_ab) [mk_storage 1 ''/abcd''] = [mk_storage 1 ''/abcd'']
   \<and> fst (GetStorage mem_env (Some tenant_ab) (Inr 1) abcd_world)
       = SuccessResp (StorageData (mk_storage 1 ''cd''))
   \<and> DeleteStorage mem_env (Some tenant_ab) (Inr 1) abcd_world
       = (SuccessResp NoData,
          \<lparr>store = [], signal = Loaded, calls = [DbGetStorageById 1, OpDeleteStorageById 1]\<rparr>)"
proof -
  have p: "strings_HasPrefix ''/abcd'' ''/ab''"
    by (simp add: strings_HasPrefix_def)
  have s: "\<not> IsUnderRoot_spec ''/abcd'' ''/ab''"
    by (simp add: IsUnderRoot_spec_def)
  have f: "filterStorages (Some tenant_ab) [mk_storage 1 ''/abcd''] = [mk_storage 1 ''/abcd'']"
    using p by (simp add: filterStorages_def tenant_ab_def mk_storage_def)
  have g: "fst (GetStorage mem_env (Some tenant_ab) (Inr 1) abcd_world)
             = SuccessResp (StorageData (mk_storage 1 ''cd''))"
    using p by (simp add: GetStorage_def invoke_def record_call_def mem_env_def abcd_world_def
        tenant_ab_def mk_storage_def ToRelative_def strings_TrimPrefix_def)
  have d: "DeleteStorage mem_env (Some tenant_ab) (Inr 1) abcd_world
       = (SuccessResp NoData,
          \<lparr>store = [], signal = Loaded, calls = [DbGetStorageById 1, OpDeleteStorageById 1]\<rparr>)"
    using p by (simp add: DeleteStorage_def owner_gate_def finish_def invoke_def record_call_def
        mem_env_def abcd_world_def tenant_ab_def mk_storage_def)
  from s p f g d show ?thesis by simp
qed

lemma gated_answer:
  assumes "\<not> IsAdmin u" and "db_GetStorageById E (uint n) (store w) = (Inr oldS, s1)"
  shows "fst (case owner_gate E (Some u) n w of
                (Some resp, w1) \<Rightarrow> (resp, w1)
              | (None, w1) \<Rightarrow> finish (invoke c (f :: 'w \<Rightarrow> err option \<times> 'w) w1))
           = ErrorStrResp ''permission denied or storage not found'' 403
         \<longleftrightarrow> \<not> strings_HasPrefix (MountPath oldS) (BasePath u)"
proof (cases "strings_HasPrefix (MountPath oldS) (BasePath u)")
  case True
  from owner_gate_passed[OF assms True] True show ?thesis
    by (simp add: finish_invoke split: prod.splits option.splits)
next
  case False
  then have "case Inr oldS :: err + Storage of Inl e \<Rightarrow> True
             | Inr oldS \<Rightarrow> \<not> strings_HasPrefix (MountPath oldS) (BasePath u)"
    by simp
  from owner_gate_denied[OF assms this] False show ?thesis by simp
qed

text \<open>
  C1, amended. For a non-admin caller with \<open>BasePath\<close> \<open>r\<close>, every scope check treats a
  path \<open>p\<close> as under \<open>r\<close> exactly when \<open>r\<close> is a prefix of \<open>p\<close> as a string, \<open>p = r @ t\<close>:
  the filter of List keeps exactly such records; Delete, Disable and Enable answer
  their combined 403 for a loaded record, and Get and Update their "permission denied",
  exactly when the record's path is not of that form; Create refuses exactly when
  neither the requested path nor its join with \<open>r\<close> is. So \<open>r\<close> itself and every \<open>r/x\<close>
  are under \<open>r\<close>, and so is a path that only continues the last segment of \<open>r\<close>: \<open>/abcd\<close>
  is under \<open>/ab\<close>.
\<close>

theorem C1_scope_is_string_prefix:
  assumes "\<not> IsAdmin u"
    and "db_GetStorageById E (uint n) (store w) = (Inr oldS, s1)"
    and "db_GetStorageById E (ID req) (store w) = (Inr oldR, s2)"
  shows "filterStorages (Some u) ss = filter (\<lambda>s. \<exists>t. MountPath s = BasePath u @ t) ss
     \<and> (fst (DeleteStorage E (Some u) (Inr n) w)
          = ErrorStrResp ''permission denied or storage not found'' 403
        \<longleftrightarrow> \<not> (\<exists>t. MountPath oldS = BasePath u @ t))
     \<and> (fst (DisableStorage E (Some u) (Inr n) w)
          = ErrorStrResp ''permission denied or storage not found'' 403
        \<longleftrightarrow> \<not> (\<exists>t. MountPath oldS = BasePath u @ t))
     \<and> (fst (EnableStorage E (Some u) (Inr n) w)
          = ErrorStrResp ''permission denied or storage not found'' 403
        \<longleftrightarrow> \<not> (\<exists>t. MountPath oldS = BasePath u @ t))
     \<and> (fst (GetStorage E (Some u) (Inr n) w) = ErrorStrResp ''permission denied'' 403
        \<longleftrightarrow> \<not> (\<exists>t. MountPath oldS = BasePath u @ t))
     \<and> (fst (UpdateStorage E (Some u) (Inr req) w) = ErrorStrResp ''permission denied'' 403
        \<longleftrightarrow> \<not> (\<exists>t. MountPath oldR = BasePath u @ t))
     \<and> (fst (CreateStorage E (Some u) (Inr req) w)
          = ErrorStrResp (''permission denied: you can only mount under '' @ BasePath u) 403
        \<longleftrightarrow> \<not> (\<exists>t. MountPath req = BasePath u @ t)
            \<and> \<not> (\<exists>t. path_Join [BasePath u, MountPath req] = BasePath u @ t))
     \<and> strings_HasPrefix (BasePath u) (BasePath u)
     \<and> (\<forall>x. strings_HasPrefix (BasePath u @ CHR ''/'' # x) (BasePath u))
     \<and> strings_HasPrefix ''/abcd'' ''/ab''"
proof -
  have f: "filterStorages (Some u) ss = filter (\<lambda>s. \<exists>t. MountPath s = BasePath u @ t) ss"
    using assms(1) by (simp add: filterStorages_def HasPrefix_iff)
  have del: "fst (DeleteStorage E (Some u) (Inr n) w)
          = ErrorStrResp ''permission denied or storage not found'' 403
        \<longleftrightarrow> \<not> (\<exists>t. MountPath oldS = BasePath u @ t)"
    using gated_answer[OF assms(1,2)] by (simp add: DeleteStorage_def HasPrefix_iff)
  have dis: "fst (DisableStorage E (Some u) (Inr n) w)
          = ErrorStrResp ''permission denied or storage not found'' 403
        \<longleftrightarrow> \<not> (\<exists>t. MountPath oldS = BasePath u @ t)"
    using gated_answer[OF assms(1,2)] by (simp add: DisableStorage_def HasPrefix_iff)
  have en: "fst (EnableStorage E (Some u) (Inr n) w)
          = ErrorStrResp ''permission denied or storage not found'' 403
        \<longleftrightarrow> \<not> (\<exists>t. MountPath oldS = BasePath u @ t)"
    using gated_answer[OF assms(1,2)] by (simp add: EnableStorage_def HasPrefix_iff)
  have get: "fst (GetStorage E (Some u) (Inr n) w) = ErrorStrResp ''permission denied'' 403
        \<longleftrightarrow> \<not> (\<exists>t. MountPath oldS = BasePath u @ t)"
    using assms(1,2) by (simp add: GetStorage_def invoke_eq Let_def HasPrefix_iff[symmetric])
  have upd: "fst (UpdateStorage E (Some u) (Inr req) w) = ErrorStrResp ''permission denied'' 403
        \<longleftrightarrow> \<not> (\<exists>t. MountPath oldR = BasePath u @ t)"
    using assms(1,3)
    by (simp add: UpdateStorage_def invoke_eq Let_def HasPrefix_iff[symmetric] invoke_def
          record_call_def split: prod.splits option.splits)
  have cre: "fst (CreateStorage E (Some u) (Inr req) w)
          = ErrorStrResp (''permission denied: you can only mount under '' @ BasePath u) 403
        \<longleftrightarrow> \<not> (\<exists>t. MountPath req = BasePath u @ t)
            \<and> \<not> (\<exists>t. path_Join [BasePath u, MountPath req] = BasePath u @ t)"
    using assms(1)
    by (simp add: CreateStorage_def ToAbsolute_def Let_def HasPrefix_iff[symmetric] invoke_def
          record_call_def split: prod.splits option.splits)
  have "strings_HasPrefix ''/abcd'' ''/ab''" by (simp add: strings_HasPrefix_def)
  with f del dis en get upd cre show ?thesis
    by (simp add: HasPrefix_iff)
qed

text \<open>
  The tenant of \<open>/ab\<close> and the record mounted at \<open>/abcd\<close>: the filter keeps it, and neither
  Get nor Delete refuses it.
\<close>

theorem C1_scope_is_string_prefix_witness:
  "filterStorages (Some tenant_ab) [mk_storage 1 ''/abcd'', mk_storage 2 ''/b'']
     = [mk_storage 1 ''/abcd'']
   \<and> fst (GetStorage mem_env (Some tenant_ab) (Inr 1) abcd_world)
       \<noteq> ErrorStrResp ''permission denied'' 403
   \<and> fst (DeleteStorage mem_env (Some tenant_ab) (Inr 1) abcd_world)
       \<noteq> ErrorStrResp ''permission denied or storage not found'' 403"
proof -
  have n: "\<not> IsAdmin tenant_ab" by (simp add: tenant_ab_def)
  have l: "db_GetStorageById mem_env (uint 1) (store abcd_world)
             = (Inr (mk_storage 1 ''/abcd''), store abcd_world)"
    by (simp add: mem_env_def abcd_world_def mk_storage_def)
  have l': "db_GetStorageById mem_env (ID (mk_storage 1 ''/x'')) (store abcd_world)
             = (Inr (mk_storage 1 ''/abcd''), store abcd_world)"
    by (simp add: mem_env_def abcd_world_def mk_storage_def)
  have e: "(\<exists>t. ''/abcd'' = ''/ab'' @ t)" "\<not> (\<exists>t. ''/b'' = ''/ab'' @ t)"
    by simp_all
  show ?thesis
    using C1_scope_is_string_prefix[OF n l l', of "[mk_storage 1 ''/abcd'', mk_storage 2 ''/b'']"] e
    by (simp add: tenant_ab_def mk_storage_def)
qed

subsection \<open>path.Clean on paths without dot segments\<close>

lemma Clean_loop_Nil [simp]: "Clean_loop rooted [] out dotdot = out"
  by (simp add: Clean_loop.simps)

lemma Clean_loop_slash [simp]:
  "Clean_loop rooted (CHR ''/'' # cs) out dotdot = Clean_loop rooted cs out dotdot"
  by (subst Clean_loop.simps) simp

lemma dot_case:
  assumes "plain_segment (c # takeWhile (\<lambda>x. x \<noteq> CHR ''/'') cs)"
  shows "\<not> (c = CHR ''.'' \<and> (cs = [] \<or> hd cs = CHR ''/''))"
  using assms by (cases cs) (auto simp: plain_segment_def)

lemma dotdot_case:
  assumes "plain_segment (c # takeWhile (\<lambda>x. x \<noteq> CHR ''/'') cs)"
  shows "\<not> (c = CHR ''.'' \<and> hd cs = CHR ''.'' \<and> (tl cs = [] \<or> hd (tl cs) = CHR ''/''))"
proof (cases cs)
  case Nil
  then show ?thesis using dot_case[OF assms] by simp
next
  case (Cons d ds)
  then show ?thesis using assms by (cases ds) (auto simp: plain_segment_def)
qed

lemma Clean_loop_plain:
  assumes "c \<noteq> CHR ''/''" and "plain_segment (c # takeWhile (\<lambda>x. x \<noteq> CHR ''/'') cs)"
  shows "Clean_loop True (c # cs) out dotdot
           = Clean_loop True (dropWhile (\<lambda>x. x \<noteq> CHR ''/'') cs)
               ((if length out \<noteq> 1 then out @ ''/'' else out)
                  @ c # takeWhile (\<lambda>x. x \<noteq> CHR ''/'') cs) dotdot"
  apply (subst Clean_loop.simps)
  apply (simp only: list.case assms(1) dot_case[OF assms(2)] dotdot_case[OF assms(2)] if_False
           Let_def simp_thms)
  done

lemma Clean_loop_segments:
  "list_all plain_segment (segments rest) \<Longrightarrow>
     Clean_loop True rest out dotdot = foldl add_segment out (segments rest)"
proof (induction rest arbitrary: out rule: segments.induct)
  case 1
  then show ?case by simp
next
  case (2 c cs)
  show ?case
  proof (cases "c = CHR ''/''")
    case True
    then show ?thesis using 2 by simp
  next
    case False
    then have p: "plain_segment (c # takeWhile (\<lambda>x. x \<noteq> CHR ''/'') cs)"
      and r: "list_all plain_segment (segments (dropWhile (\<lambda>x. x \<noteq> CHR ''/'') cs))"
      using "2.prems" by simp_all
    show ?thesis
      using False "2.IH"(2)[OF False r] Clean_loop_plain[OF False p]
      by (simp add: add_segment_def)
  qed
qed

lemma segments_nonempty: "s \<in> set (segments p) \<Longrightarrow> s \<noteq> []"
  by (induction p rule: segments.induct) (auto split: if_splits)

lemma segments_append_slash: "segments (a @ CHR ''/'' # b) = segments a @ segments b"
proof (induction a rule: segments.induct)
  case 1
  then show ?case by simp
next
  case (2 c cs)
  show ?case
  proof (cases "c = CHR ''/''")
    case True
    then show ?thesis using 2 by simp
  next
    case False
    let ?P = "\<lambda>x. x \<noteq> CHR ''/''"
    have t: "takeWhile ?P (cs @ CHR ''/'' # b) = takeWhile ?P cs"
      by (induction cs) auto
    have d: "dropWhile ?P (cs @ CHR ''/'' # b) = dropWhile ?P cs @ CHR ''/'' # b"
      by (induction cs) auto
    show ?thesis using False "2.IH"(2)[OF False] by (simp add: t d)
  qed
qed

lemma foldl_add_segment_long:
  assumes "length out \<ge> 2"
  shows "foldl add_segment out segs = out @ rooted_of segs"
  using assms
  by (induction segs arbitrary: out) (auto simp: add_segment_def rooted_of_def)

lemma foldl_add_segment_root:
  assumes "\<forall>s \<in> set segs. s \<noteq> []"
  shows "foldl add_segment ''/'' segs = (if segs = [] then ''/'' else rooted_of segs)"
proof (cases segs)
  case Nil
  then show ?thesis by simp
next
  case (Cons s ss)
  then have "s \<noteq> []" using assms by simp
  then have "length (CHR ''/'' # s) \<ge> 2" by (cases s) simp_all
  from foldl_add_segment_long[OF this, of ss] show ?thesis
    using Cons by (simp add: add_segment_def rooted_of_def)
qed

lemma path_Clean_rooted:
  assumes "list_all plain_segment (segments rest)"
  shows "path_Clean (CHR ''/'' # rest)
           = (if segments rest = [] then ''/'' else rooted_of (segments rest))"
proof -
  have "Clean_loop True rest ''/'' 1 = foldl add_segment ''/'' (segments rest)"
    using assms by (rule Clean_loop_segments)
  also have "\<dots> = (if segments rest = [] then ''/'' else rooted_of (segments rest))"
    using segments_nonempty[of _ rest] by (intro foldl_add_segment_root) blast
  finally show ?thesis
    by (simp add: path_Clean_def rooted_of_def split: list.splits)
qed

lemma clean_abs_rooted: "clean_abs p \<Longrightarrow> \<exists>rest. p = CHR ''/'' # rest"
  by (cases "segments p") (auto simp: clean_abs_def rooted_of_def)

lemma path_Clean_clean_abs: "clean_abs p \<Longrightarrow> path_Clean p = p"
proof -
  assume c: "clean_abs p"
  then obtain rest where p: "p = CHR ''/'' # rest" using clean_abs_rooted by blast
  then have s: "segments rest = segments p" by simp
  from c have "list_all plain_segment (segments rest)" "segments rest \<noteq> []"
    "rooted_of (segments rest) = p"
    unfolding s by (simp_all add: clean_abs_def)
  with path_Clean_rooted[of rest] p show ?thesis by simp
qed

lemma rooted_of_append [simp]: "rooted_of (xs @ ys) = rooted_of xs @ rooted_of ys"
  by (simp add: rooted_of_def)

lemma Join_clean_abs:
  assumes "clean_abs r" and "clean_abs q"
  shows "path_Join [r, q] = r @ q"
proof -
  from assms obtain r' q' where r: "r = CHR ''/'' # r'" and q: "q = CHR ''/'' # q'"
    using clean_abs_rooted by blast
  have sr: "segments r' = segments r" and sq: "segments (CHR ''/'' # q) = segments q"
    using r by simp_all
  have j: "path_Join [r, q] = path_Clean (CHR ''/'' # (r' @ CHR ''/'' # q))"
    using r by (simp add: path_Join_def Join_step_def)
  have seg: "segments (r' @ CHR ''/'' # q) = segments r @ segments q"
    by (simp add: segments_append_slash sr)
  have pl: "list_all plain_segment (segments (r' @ CHR ''/'' # q))"
    using assms by (simp add: seg clean_abs_def)
  have ne: "segments (r' @ CHR ''/'' # q) \<noteq> []"
    using assms(1) by (simp add: seg clean_abs_def)
  have "path_Clean (CHR ''/'' # (r' @ CHR ''/'' # q)) = rooted_of (segments (r' @ CHR ''/'' # q))"
    using path_Clean_rooted[OF pl] ne by simp
  then have "path_Clean (CHR ''/'' # (r' @ CHR ''/'' # q)) = rooted_of (segments r @ segments q)"
    by (simp only: seg)
  also have "\<dots> = r @ q"
    using assms by (simp add: clean_abs_def)
  finally show ?thesis using j by simp
qed

lemma Join_clean_abs_root:
  assumes "clean_abs r"
  shows "path_Join [r, ''/''] = r"
proof -
  from assms obtain r' where r: "r = CHR ''/'' # r'"
    using clean_abs_rooted by blast
  have sr: "segments r' = segments r" using r by simp
  have j: "path_Join [r, ''/''] = path_Clean (CHR ''/'' # (r' @ CHR ''/'' # ''/''))"
    using r by (simp add: path_Join_def Join_step_def)
  have seg: "segments (r' @ CHR ''/'' # ''/'') = segments r"
    by (simp add: segments_append_slash sr)
  have "path_Clean (CHR ''/'' # (r' @ CHR ''/'' # ''/'')) = rooted_of (segments r)"
    using path_Clean_rooted[of "r' @ CHR ''/'' # ''/''"] assms
    by (simp add: seg clean_abs_def)
  with j assms show ?thesis by (simp add: clean_abs_def)
qed

subsection \<open>The tenant view and the round trip\<close>

lemma dispatch_calls:
  "\<exists>cs. calls (snd (dispatch E c i ss acc workers w)) = calls w @ cs
        \<and> map OpGetStorageByMountPath (resolved_paths cs) = cs"
proof (induction ss arbitrary: i acc workers w)
  case Nil
  then show ?case by simp
next
  case (Cons s ss)
  let ?acc1 = "acc @ [\<lparr>Storage = tenant_view c s, MountDetails = None\<rparr>]"
  let ?call = "OpGetStorageByMountPath (MountPath (tenant_view c s))"
  show ?case
  proof (cases "HideStorageDetailsInManagePage E (store w)")
    case True
    then show ?thesis using Cons.IH[of "i + 1" ?acc1 workers w] by (simp add: Let_def)
  next
    case False
    obtain d w1 where inv: "invoke ?call (op_GetStorageByMountPath E (MountPath (tenant_view c s))) w
                              = (d, w1)"
      by (metis surj_pair)
    then have c1: "calls w1 = calls w @ [?call]"
      by (auto simp: invoke_def record_call_def split: prod.splits)
    have "\<exists>wk. dispatch E c i (s # ss) acc workers w = dispatch E c (i + 1) ss ?acc1 wk w1"
      using False inv by (auto simp: Let_def split: sum.splits)
    then obtain wk where
      st: "dispatch E c i (s # ss) acc workers w = dispatch E c (i + 1) ss ?acc1 wk w1"
      by blast
    from Cons.IH[of "i + 1" ?acc1 wk w1] obtain cs where
      cs: "calls (snd (dispatch E c (i + 1) ss ?acc1 wk w1)) = calls w1 @ cs"
        "map OpGetStorageByMountPath (resolved_paths cs) = cs"
      by blast
    show ?thesis
      by (rule exI[of _ "?call # cs"]) (use st cs c1 in simp)
  qed
qed

text \<open>
  C7, as the spec states it, fails: the round trip \<open>ToRelative(ToAbsolute(p, r), r)\<close> is
  not idempotent on the paths under \<open>r\<close>. With \<open>r = /u1\<close> the path \<open>/u1/u1/x\<close> is under \<open>r\<close>;
  one round trip gives \<open>/u1/x\<close>, which is again under \<open>r\<close>, and a second one gives \<open>/x\<close>.
\<close>

theorem C7_roundtrip_counterexample:
  "strings_HasPrefix ''/u1/u1/x'' ''/u1''
   \<and> roundtrip ''/u1'' ''/u1/u1/x'' = ''/u1/x''
   \<and> roundtrip ''/u1'' (roundtrip ''/u1'' ''/u1/u1/x'') = ''/x''
   \<and> roundtrip ''/u1'' (roundtrip ''/u1'' ''/u1/u1/x'') \<noteq> roundtrip ''/u1'' ''/u1/u1/x''"
  by (simp add: roundtrip_def ToAbsolute_def ToRelative_def strings_TrimPrefix_def
        strings_HasPrefix_def)

lemma roundtrip_fixed:
  assumes "clean_abs r" and "v = ''/'' \<or> clean_abs v" and "\<not> strings_HasPrefix v r"
  shows "roundtrip r v = v"
proof -
  from assms(2) show ?thesis
  proof
    assume v: "v = ''/''"
    have "ToAbsolute v r = r"
      using assms(3) Join_clean_abs_root[OF assms(1)] by (simp add: ToAbsolute_def v)
    then show ?thesis
      by (simp add: roundtrip_def ToRelative_def strings_TrimPrefix_def strings_HasPrefix_def v)
  next
    assume cv: "clean_abs v"
    then have ne: "v \<noteq> []" by (auto simp: clean_abs_def)
    have "ToAbsolute v r = r @ v"
      using assms(3) Join_clean_abs[OF assms(1) cv] by (simp add: ToAbsolute_def)
    then show ?thesis
      using ne by (simp add: roundtrip_def ToRelative_def strings_TrimPrefix_def
          strings_HasPrefix_def)
  qed
qed

text \<open>
  C7, amended. For a path \<open>p\<close> under the root \<open>r\<close> (that is, with prefix \<open>r\<close>),
  \<open>ToAbsolute\<close> leaves \<open>p\<close> as it is, so the round trip is \<open>ToRelative\<close>: \<open>r\<close> stripped once,
  and \<open>/\<close> when nothing remains. A second round trip gives the same path again when \<open>r\<close>
  is a clean absolute path, the stripped path \<open>v\<close> is \<open>/\<close> or a clean absolute path,
  and \<open>v\<close> is not itself under \<open>r\<close>. For a non-admin viewer this \<open>v\<close> is the \<open>MountPath\<close>
  that \<^verbatim>\<open>makeStorageResp\<close> (in the record's slot) and Get present: \<open>/drive\<close> for \<open>/u1/drive\<close>
  under \<open>/u1\<close>, and \<open>/\<close> when \<open>MountPath\<close> equals \<open>BasePath\<close>. It is a view only: Get reaches
  the store with its load and nothing else, and \<^verbatim>\<open>makeStorageResp\<close> with nothing but
  requests for the live driver.
\<close>

theorem C7_view_roundtrip:
  assumes "\<not> IsAdmin u" and "strings_HasPrefix (MountPath s) (BasePath u)"
    and "db_GetStorageById E (uint n) (store w) = (Inr s, s1)"
  shows "let r = BasePath u; p = MountPath s;
             v = (if p = r then ''/'' else drop (length r) p)
         in ToAbsolute p r = p \<and> roundtrip r p = v
          \<and> (clean_abs r \<and> (v = ''/'' \<or> clean_abs v) \<and> \<not> strings_HasPrefix v r
                \<longrightarrow> roundtrip r (roundtrip r p) = roundtrip r p)
          \<and> tenant_view (Some u) s = s\<lparr>MountPath := v\<rparr>
          \<and> GetStorage E (Some u) (Inr n) w
              = (SuccessResp (StorageData (s\<lparr>MountPath := v\<rparr>)),
                 w\<lparr>store := s1, calls := calls w @ [DbGetStorageById (uint n)]\<rparr>)
          \<and> (\<exists>res w1 cs.
                 makeStorageResp E (Some u) arrival (pre @ s # post) w' = (Some res, w1)
               \<and> Storage (responses res ! length pre) = s\<lparr>MountPath := v\<rparr>
               \<and> calls w1 = calls w' @ cs
               \<and> map OpGetStorageByMountPath (resolved_paths cs) = cs)
          \<and> (r = ''/u1'' \<and> p = ''/u1/drive'' \<longrightarrow> v = ''/drive'')"
proof -
  define r where "r = BasePath u"
  define p where "p = MountPath s"
  define v where "v = (if p = r then ''/'' else drop (length r) p)"
  have pre: "strings_HasPrefix p r" using assms(2) by (simp add: p_def r_def)
  then obtain t where t: "p = r @ t" by (auto simp: HasPrefix_iff)
  have abs: "ToAbsolute p r = p" using pre by (simp add: ToAbsolute_def)
  have rel: "ToRelative p r = v"
    using pre t by (auto simp: ToRelative_def strings_TrimPrefix_def v_def)
  have rt: "roundtrip r p = v" using abs rel by (simp add: roundtrip_def)
  have idem: "clean_abs r \<and> (v = ''/'' \<or> clean_abs v) \<and> \<not> strings_HasPrefix v r
                \<longrightarrow> roundtrip r (roundtrip r p) = roundtrip r p"
    using roundtrip_fixed[of r v] rt by simp
  have view: "tenant_view (Some u) s = s\<lparr>MountPath := v\<rparr>"
    using assms(1,2) rel by (simp add: tenant_view_def p_def r_def)
  have get: "GetStorage E (Some u) (Inr n) w
              = (SuccessResp (StorageData (s\<lparr>MountPath := v\<rparr>)),
                 w\<lparr>store := s1, calls := calls w @ [DbGetStorageById (uint n)]\<rparr>)"
    using assms rel by (simp add: GetStorage_def invoke_eq p_def r_def)
  have list: "\<exists>res w1 cs.
                 makeStorageResp E (Some u) arrival (pre @ s # post) w' = (Some res, w1)
               \<and> Storage (responses res ! length pre) = s\<lparr>MountPath := v\<rparr>
               \<and> calls w1 = calls w' @ cs
               \<and> map OpGetStorageByMountPath (resolved_paths cs) = cs"
  proof -
    obtain resps0 workers w1 where
      d: "dispatch E (Some u) 0 (pre @ s # post) [] [] w' = ((resps0, workers), w1)"
      by (metis surj_pair)
    from makeStorageResp_closed_form[OF d, of arrival] obtain res where
      res: "makeStorageResp E (Some u) arrival (pre @ s # post) w' = (Some res, w1)"
        "map Storage (responses res) = map (tenant_view (Some u)) (pre @ s # post)"
      by (auto simp: comp_def)
    from res(2) have "length (responses res) = length (pre @ s # post)"
      by (metis length_map)
    then have "Storage (responses res ! length pre) = map Storage (responses res) ! length pre"
      by simp
    also have "\<dots> = tenant_view (Some u) s"
      unfolding res(2) by (simp add: nth_append)
    finally have slot: "Storage (responses res ! length pre) = s\<lparr>MountPath := v\<rparr>"
      using view by simp
    from dispatch_calls[of E "Some u" 0 "pre @ s # post" "[]" "[]" w'] d obtain cs where
      "calls w1 = calls w' @ cs" "map OpGetStorageByMountPath (resolved_paths cs) = cs"
      by auto
    with res(1) slot show ?thesis by blast
  qed
  have drive: "r = ''/u1'' \<and> p = ''/u1/drive'' \<longrightarrow> v = ''/drive''"
    by (simp add: v_def)
  from abs rt idem view get list drive show ?thesis
    unfolding Let_def r_def[symmetric] p_def[symmetric] v_def[symmetric] by blast
qed

text \<open>
  The tenant of \<open>/u1\<close> and its record \<open>/u1/drive\<close>: the round trip gives \<open>/drive\<close>, twice as
  well as once, Get and \<^verbatim>\<open>makeStorageResp\<close> show \<open>/drive\<close>, and after Get the store is as
  it was. A record mounted at \<open>/u1\<close> itself is shown as \<open>/\<close>.
\<close>

theorem C7_view_roundtrip_witness:
  "roundtrip ''/u1'' ''/u1/drive'' = ''/drive''
   \<and> roundtrip ''/u1'' (roundtrip ''/u1'' ''/u1/drive'') = roundtrip ''/u1'' ''/u1/drive''
   \<and> GetStorage mem_env (Some tenant) (Inr 1) mem_world
       = (SuccessResp (StorageData (mk_storage 1 ''/drive'')),
          mem_world\<lparr>calls := [DbGetStorageById 1]\<rparr>)
   \<and> (\<exists>res w1. makeStorageResp mem_env (Some tenant) (\<lambda>i. None) [mk_storage 1 ''/u1/drive'']
                   mem_world = (Some res, w1)
         \<and> Storage (responses res ! 0) = mk_storage 1 ''/drive'')
   \<and> tenant_view (Some tenant) (mk_storage 3 ''/u1'') = mk_storage 3 ''/''"
proof -
  have p: "strings_HasPrefix ''/u1/drive'' ''/u1''" "\<not> strings_HasPrefix ''/drive'' ''/u1''"
    "strings_HasPrefix ''/u1'' ''/u1''"
    by (simp_all add: strings_HasPrefix_def)
  have c: "clean_abs ''/u1''" "clean_abs ''/drive''"
    by (simp_all add: clean_abs_def rooted_of_def plain_segment_def)
  have l3: "db_GetStorageById mem_env (uint 1) (store (mem_world\<lparr>store := [mk_storage 1 ''/u1'']\<rparr>))
              = (Inr (mk_storage 1 ''/u1''), [mk_storage 1 ''/u1''])"
    by (simp add: mem_env_def mk_storage_def)
  have a: "roundtrip ''/u1'' ''/u1/drive'' = ''/drive''
   \<and> roundtrip ''/u1'' (roundtrip ''/u1'' ''/u1/drive'') = roundtrip ''/u1'' ''/u1/drive''
   \<and> GetStorage mem_env (Some tenant) (Inr 1) mem_world
       = (SuccessResp (StorageData (mk_storage 1 ''/drive'')),
          mem_world\<lparr>calls := [DbGetStorageById 1]\<rparr>)
   \<and> (\<exists>res w1. makeStorageResp mem_env (Some tenant) (\<lambda>i. None) [mk_storage 1 ''/u1/drive'']
                   mem_world = (Some res, w1)
         \<and> Storage (responses res ! 0) = mk_storage 1 ''/drive'')"
    using C7_view_roundtrip[OF tenant_not_admin _ mem_load_1, of "\<lambda>i. None" "[]" "[]" mem_world]
      p c
    by (auto simp: Let_def tenant_def mk_storage_def mem_world_def)
  have b: "tenant_view (Some tenant) (mk_storage 3 ''/u1'') = mk_storage 3 ''/''"
    using C7_view_roundtrip[OF tenant_not_admin, of "mk_storage 3 ''/u1''" mem_env 3
        "mem_world\<lparr>store := [mk_storage 3 ''/u1'']\<rparr>" "[mk_storage 3 ''/u1'']"] p
    by (simp add: Let_def tenant_def mk_storage_def mem_env_def uint_def)
  from a b show ?thesis by blast
qed

end
